theory Spec2Isabelle
  imports Complex_Main
begin

section \<open>Strings\<close>

text \<open>
  A JavaScript string is a sequence of UTF-16 code units. The model uses \<^typ>\<open>string\<close>:
  a \<^typ>\<open>char\<close> stands for the code unit with the same number, so the model covers the
  strings whose code units are below 256 (ASCII and Latin-1). The character classes below
  are the regular-expression classes of the source, cut down to that range.
\<close>

abbreviation backslash :: char where
  "backslash \<equiv> CHR 0x5C"

abbreviation newline :: char where
  "newline \<equiv> CHR 0x0A"

text \<open>
  The class \<open>\s\<close>, which is also the set of characters that \<open>String.prototype.trim\<close>
  removes: tab, line feed, vertical tab, form feed, carriage return, space and the
  no-break space U+00A0.
\<close>

definition is_space :: "char \<Rightarrow> bool" where
  "is_space c \<longleftrightarrow> c \<in> set [CHR 0x09, CHR 0x0A, CHR 0x0B, CHR 0x0C, CHR 0x0D, CHR 0x20, CHR 0xA0]"

text \<open>The class \<open>\d\<close>.\<close>

definition is_digit :: "char \<Rightarrow> bool" where
  "is_digit c \<longleftrightarrow> c \<in> set ''0123456789''"

text \<open>The characters that \<open>.\<close> does not match: line feed and carriage return.\<close>

definition line_terminator :: "char \<Rightarrow> bool" where
  "line_terminator c \<longleftrightarrow> c \<in> set [CHR 0x0A, CHR 0x0D]"

text \<open>\<open>String.prototype.trim\<close>.\<close>

definition trim :: "string \<Rightarrow> string" where
  "trim s = rev (dropWhile is_space (rev (dropWhile is_space s)))"

section \<open>Utils\<close>

text \<open>
  \<open>text.search(/^\s*$/)\<close>: the pattern has no \<open>m\<close> flag, so it matches the whole string
  or nothing, and the result is the index 0 or -1.
\<close>

definition search_blank :: "string \<Rightarrow> int" where
  "search_blank text = (if list_all is_space text then 0 else - 1)"

definition isPresent :: "string \<Rightarrow> bool" where
  "isPresent text \<longleftrightarrow> text \<noteq> [] \<and> search_blank text = - 1"

text \<open>The class \<open>[*<\[\\_`~]\<close> of the characters escaped everywhere.\<close>

definition always_chars :: string where
  "always_chars = [CHR ''*'', CHR ''<'', CHR ''['', backslash, CHR ''_'', CHR ''`'', CHR ''~'']"

definition always_escaped :: "char \<Rightarrow> bool" where
  "always_escaped c \<longleftrightarrow> c \<in> set always_chars"

text \<open>\<open>text.replace(/([*<\[\\_`~])/g, '\\$1')\<close>\<close>

fun escape_always :: "string \<Rightarrow> string" where
  "escape_always [] = []"
| "escape_always (c # cs) =
     (if always_escaped c then backslash # c # escape_always cs else c # escape_always cs)"

text \<open>The class \<open>[#+\-=>]\<close> of the characters escaped at the start of a block.\<close>

definition block_start_chars :: string where
  "block_start_chars = ''#+-=>''"

definition block_start :: "char \<Rightarrow> bool" where
  "block_start c \<longleftrightarrow> c \<in> set block_start_chars"

text \<open>
  \<open>text.replace(/^(\s*?)([#+\-=>])/g, '$1\\$2')\<close>: the pattern is anchored at the start
  of the string, so it matches at most once, the leading white space and one character
  of the class.
\<close>

definition escape_block_start :: "string \<Rightarrow> string" where
  "escape_block_start text =
     (case dropWhile is_space text of
        [] \<Rightarrow> text
      | c # rest \<Rightarrow>
          if block_start c then takeWhile is_space text @ backslash # c # rest else text)"

text \<open>
  The rest \<open>.*?;\<close> of the pattern \<open>&.*?;\<close>, tried at the start of a string: the
  characters up to and including the first semicolon, when no line terminator comes
  before it, and what follows them.
\<close>

fun lazy_semicolon :: "string \<Rightarrow> (string \<times> string) option" where
  "lazy_semicolon [] = None"
| "lazy_semicolon (c # cs) =
     (if c = CHR '';'' then Some ([c], cs)
      else if line_terminator c then None
      else (case lazy_semicolon cs of
              None \<Rightarrow> None
            | Some (m, r) \<Rightarrow> Some (c # m, r)))"

lemma lazy_semicolon_length:
  "lazy_semicolon cs = Some (m, r) \<Longrightarrow> length r < length cs"
  by (induction cs arbitrary: m r) (auto split: if_splits option.splits)

text \<open>
  \<open>text.replace(/(&.*?;)/g, '\\$1')\<close>: the matches are found from left to right, and
  the search goes on after the end of each match.
\<close>

function escape_entities :: "string \<Rightarrow> string" where
  "escape_entities [] = []"
| "escape_entities (c # cs) =
     (if c = CHR ''&'' then
        (case lazy_semicolon cs of
           None \<Rightarrow> c # escape_entities cs
         | Some (m, r) \<Rightarrow> backslash # c # m @ escape_entities r)
      else c # escape_entities cs)"
  by pat_completeness auto
termination
  by (relation "measure length") (auto dest: lazy_semicolon_length)

text \<open>
  \<open>text.replace(/^(\s*\d+)\. /g, '$1\\. ')\<close>: anchored at the start again; the white
  space and the digits are matched greedily, and neither can give a character back to
  what follows.
\<close>

definition escape_ordinal :: "string \<Rightarrow> string" where
  "escape_ordinal text =
     (let ws = takeWhile is_space text;
          r1 = dropWhile is_space text;
          ds = takeWhile is_digit r1;
          r2 = dropWhile is_digit r1
      in if ds \<noteq> [] \<and> take 2 r2 = ''. ''
         then ws @ ds @ backslash # ''. '' @ drop 2 r2
         else text)"

definition escape :: "string \<Rightarrow> string" where
  "escape text = escape_ordinal (escape_entities (escape_block_start (escape_always text)))"

text \<open>\<open>text.replace(/\s+/g, " ")\<close>\<close>

function collapse_ws :: "string \<Rightarrow> string" where
  "collapse_ws [] = []"
| "collapse_ws (c # cs) =
     (if is_space c then CHR '' '' # collapse_ws (dropWhile is_space cs)
      else c # collapse_ws cs)"
  by pat_completeness auto
termination
  by (relation "measure length") (auto simp: less_Suc_eq_le length_dropWhile_le)

definition normalise :: "string \<Rightarrow> string" where
  "normalise text = trim (collapse_ws text)"

section \<open>Segments and the Stringifier\<close>

text \<open>
  The exceptions of the source: the \<open>TypeError\<close> that JavaScript raises when a property
  of \<open>null\<close> or \<open>undefined\<close> is read or a value that is no function is called, and the
  \<open>SyntaxError\<close> that \<open>Element.matches\<close> raises for a selector it cannot parse.
\<close>

datatype error = TypeError | SyntaxError

text \<open>
  A segment is a \<open>Span\<close> object, which holds its text, or a bare string. The
  constructor \<open>Span(text, useRaw)\<close> escapes the text unless \<open>useRaw\<close> is set.
\<close>

datatype segment = Span string | Str string

definition new_Span :: "string \<Rightarrow> bool \<Rightarrow> segment" where
  "new_Span text useRaw = Span (if useRaw then text else escape text)"

text \<open>\<open>segment.constructor.name\<close>\<close>

fun constructor_name :: "segment \<Rightarrow> string" where
  "constructor_name (Span t) = ''Span''"
| "constructor_name (Str s) = ''String''"

text \<open>\<open>Span.prototype.toString\<close>, and the string itself for a bare string.\<close>

fun toString :: "segment \<Rightarrow> string" where
  "toString (Span t) = t"
| "toString (Str s) = s"

text \<open>\<open>Array.prototype.join\<close> on strings, and on segments, where it calls \<open>toString\<close>.\<close>

fun join :: "string \<Rightarrow> string list \<Rightarrow> string" where
  "join sep [] = []"
| "join sep [x] = x"
| "join sep (x # y # ys) = x @ sep @ join sep (y # ys)"

definition join_segments :: "segment list \<Rightarrow> string" where
  "join_segments segments = concat (map toString segments)"

text \<open>
  The loop of \<open>chunkUpSegments\<close> over \<open>this.segments.concat(null)\<close>, with the variables
  \<open>chunks\<close>, \<open>lastType\<close> and \<open>currentChunk\<close>. At the closing \<open>null\<close> the loop ends when
  the current chunk is not empty; when it is empty (there was no segment at all) the
  source goes on to read \<open>segment.constructor\<close> of \<open>null\<close>, which raises a TypeError.
\<close>

type_synonym chunk = "string option \<times> segment list"

fun chunk_loop ::
  "segment option list \<Rightarrow> chunk list \<Rightarrow> string option \<Rightarrow> segment list \<Rightarrow> error + chunk list" where
  "chunk_loop [] chunks lastType currentChunk = Inr chunks"
| "chunk_loop (None # rest) chunks lastType currentChunk =
     (if currentChunk \<noteq> [] then Inr (chunks @ [(lastType, currentChunk)])
      else Inl TypeError)"
| "chunk_loop (Some segment # rest) chunks lastType currentChunk =
     (if lastType = None \<or> Some (constructor_name segment) \<noteq> lastType then
        (if currentChunk \<noteq> [] then
           chunk_loop rest (chunks @ [(lastType, currentChunk)])
             (Some (constructor_name segment)) [segment]
         else
           chunk_loop rest chunks (Some (constructor_name segment)) (currentChunk @ [segment]))
      else chunk_loop rest chunks lastType (currentChunk @ [segment]))"

definition chunkUpSegments :: "segment list \<Rightarrow> error + chunk list" where
  "chunkUpSegments segments = chunk_loop (map Some segments @ [None]) [] None []"

definition stringify_chunk :: "chunk \<Rightarrow> string" where
  "stringify_chunk chunk =
     (let type = fst chunk; text = join_segments (snd chunk)
      in if type = Some ''Span'' then normalise text else text)"

definition stringify :: "segment list \<Rightarrow> error + string" where
  "stringify segments =
     (case chunkUpSegments segments of
        Inl e \<Rightarrow> Inl e
      | Inr chunks \<Rightarrow> Inr (concat (map stringify_chunk chunks)))"

section \<open>Blocks\<close>

text \<open>
  \<open>String.prototype.split\<close> with the pattern \<open>/\n{2,}/g\<close>: the string is cut at every
  maximal run of two or more line feeds. \<open>cur\<close> is the piece being read.
\<close>

function split_loop :: "string \<Rightarrow> string \<Rightarrow> string list" where
  "split_loop cur [] = [cur]"
| "split_loop cur [c] = [cur @ [c]]"
| "split_loop cur (c # d # cs) =
     (if c = newline \<and> d = newline
      then cur # split_loop [] (dropWhile (\<lambda>x. x = newline) cs)
      else split_loop (cur @ [c]) (d # cs))"
  by pat_completeness auto
termination
  by (relation "measure (\<lambda>(cur, s). length s)")
    (auto simp: less_Suc_eq_le intro: le_trans[OF length_dropWhile_le])

definition split_newlines :: "string \<Rightarrow> string list" where
  "split_newlines s = split_loop [] s"

text \<open>The loop of \<open>Pre.prototype.toArray\<close> over the pieces, with its variable \<open>result\<close>.\<close>

fun pre_loop :: "string list \<Rightarrow> string list \<Rightarrow> string list" where
  "pre_loop [] result = result"
| "pre_loop (node # nodes) result =
     (let normalised = normalise node
      in pre_loop nodes (if isPresent normalised then result @ [normalised] else result))"

definition Pre_toArray :: "segment list \<Rightarrow> segment list" where
  "Pre_toArray segments =
     (let nodes = split_newlines (join_segments segments);
          result = pre_loop nodes []
      in if result \<noteq> [] then [Str (join [newline, newline] result @ [newline, newline])]
         else [])"

text \<open>
  \<open>"######".substr(-this.level)\<close>: the last \<open>level\<close> characters; the whole string when
  \<open>level\<close> is 0 or more than 6.
\<close>

definition Heading_toArray :: "segment list \<Rightarrow> nat \<Rightarrow> segment list" where
  "Heading_toArray segments level =
     [Str (drop (if level = 0 then 0 else 6 - level) ''######'' @ '' '')] @ segments
       @ [Str [newline, newline]]"

text \<open>
  The decimal digits of a number, as \<open>this.index + ". "\<close> writes them (the index is a
  count of elements, far below the size where JavaScript turns to exponents).
\<close>

fun decimal :: "nat \<Rightarrow> string" where
  "decimal n =
     (if n < 10 then [''0123456789'' ! n]
      else decimal (n div 10) @ [''0123456789'' ! (n mod 10)])"

declare decimal.simps [simp del]

definition ListItem_prefix :: "nat option \<Rightarrow> string" where
  "ListItem_prefix index =
     (case index of None \<Rightarrow> ''* '' | Some i \<Rightarrow> decimal i @ ''. '')"

definition ListItem_toArray :: "segment list \<Rightarrow> bool \<Rightarrow> nat option \<Rightarrow> segment list" where
  "ListItem_toArray segments isLast index =
     [Str (ListItem_prefix index)] @ segments
       @ [Str ([newline] @ (if isLast then [newline] else []))]"

definition DefinitionTerm_toArray :: "segment list \<Rightarrow> segment list" where
  "DefinitionTerm_toArray segments = segments @ [Str ('':'' @ [newline])]"

definition DefinitionDescription_toArray :: "segment list \<Rightarrow> bool \<Rightarrow> segment list" where
  "DefinitionDescription_toArray segments isLast =
     segments @ [Str ([newline] @ (if isLast then [newline] else []))]"

definition Paragraph_toArray :: "segment list \<Rightarrow> segment list" where
  "Paragraph_toArray segments = segments @ [Str [newline, newline]]"

text \<open>
  What \<open>Document.prototype.break\<close> is called with: a block constructor and the
  arguments that follow the segments in its parameter list (\<open>last\<close>, here \<open>isLast\<close>,
  and \<open>index\<close> for a list item, \<open>level\<close> for a heading).
\<close>

datatype block =
    Paragraph
  | Heading nat
  | ListItem bool "nat option"
  | DefinitionTerm
  | DefinitionDescription bool
  | Pre

text \<open>\<open>new blockType(segments, ...args).toArray()\<close>\<close>

fun toArray :: "block \<Rightarrow> segment list \<Rightarrow> segment list" where
  "toArray Paragraph segments = Paragraph_toArray segments"
| "toArray (Heading level) segments = Heading_toArray segments level"
| "toArray (ListItem isLast index) segments = ListItem_toArray segments isLast index"
| "toArray DefinitionTerm segments = DefinitionTerm_toArray segments"
| "toArray (DefinitionDescription isLast) segments = DefinitionDescription_toArray segments isLast"
| "toArray Pre segments = Pre_toArray segments"

section \<open>Document\<close>

text \<open>
  The fields of a \<open>Document\<close>. \<open>args\<close> is \<open>Some\<close> block when the array \<open>this.args\<close>
  starts with a block constructor, and \<open>None\<close> when it does not: it is empty after the
  constructor's \<open>start()\<close>, and \<open>blockContent\<close> leaves \<open>null\<close> at its head. The field
  \<open>extractor\<close> is read for \<open>isInBlockquote()\<close> only, which the functions below take as
  the argument \<open>inBlockquote\<close>.
\<close>

record document =
  content :: string
  segments :: "segment list"
  args :: "block option"

definition start :: "block option \<Rightarrow> document \<Rightarrow> document" where
  "start a d = d\<lparr>segments := [], args := a\<rparr>"

definition new_Document :: document where
  "new_Document = start None \<lparr>content = [], segments = [], args = None\<rparr>"

definition getContent :: "document \<Rightarrow> string" where
  "getContent d = content d"

definition push :: "segment \<Rightarrow> document \<Rightarrow> document" where
  "push segment d = d\<lparr>segments := segments d @ [segment]\<rparr>"

text \<open>
  The loop of \<open>Document.prototype.isPresent\<close>, and the method, under the name
  \<open>Document_isPresent\<close> (\<open>isPresent\<close> is the function of \<open>Utils\<close>).
\<close>

fun present_loop :: "segment list \<Rightarrow> bool" where
  "present_loop [] = False"
| "present_loop (Span t # rest) = (if isPresent t then True else present_loop rest)"
| "present_loop (Str s # rest) = present_loop rest"

definition Document_isPresent :: "document \<Rightarrow> bool" where
  "Document_isPresent d = present_loop (segments d)"

text \<open>
  \<open>blockContent\<close> takes the constructor off \<open>this.args\<close> and puts \<open>null\<close> and the
  segments in its place; binding something that is no function raises a TypeError.
\<close>

definition blockContent :: "document \<Rightarrow> error + (string \<times> document)" where
  "blockContent d =
     (case args d of
        None \<Rightarrow> Inl TypeError
      | Some blockType \<Rightarrow>
          (case stringify (toArray blockType (segments d)) of
             Inl e \<Rightarrow> Inl e
           | Inr text \<Rightarrow> Inr (text, d\<lparr>args := None\<rparr>)))"

definition finish :: "bool \<Rightarrow> document \<Rightarrow> error + document" where
  "finish inBlockquote d =
     (if \<not> Document_isPresent d then Inr d
      else
        (let d1 = (if inBlockquote then d\<lparr>content := content d @ ''> ''\<rparr> else d)
         in case blockContent d1 of
              Inl e \<Rightarrow> Inl e
            | Inr (text, d2) \<Rightarrow> Inr (d2\<lparr>content := content d2 @ text\<rparr>)))"

definition break :: "bool \<Rightarrow> block \<Rightarrow> document \<Rightarrow> error + document" where
  "break inBlockquote blockType d =
     (case finish inBlockquote d of
        Inl e \<Rightarrow> Inl e
      | Inr d' \<Rightarrow> Inr (start (Some blockType) d'))"

section \<open>The node tree\<close>

text \<open>
  The tree comes from a DOM library. The model has the nodes the traversal tells apart:
  elements, text nodes and comments. An element carries its \<open>nodeName\<close>, the attributes
  of the markup (which the source never reads), the properties that the DOM computes
  for it and that the source reads, and its child nodes. Elements are HTML elements:
  \<open>alt\<close>, \<open>src\<close>, \<open>href\<close> and \<open>value\<close> are strings. The properties \<open>src\<close> and
  \<open>href\<close> are the URLs as the DOM resolves and serialises them, not the attribute
  values of the markup.
\<close>

record rect =
  rect_left :: real
  rect_right :: real
  rect_top :: real
  rect_bottom :: real

text \<open>
  \<open>input_value\<close> is the property \<open>value\<close> (of a \<open>textarea\<close>).
  \<open>innerText\<close> is \<open>None\<close> when the DOM library has no such property.
  \<open>clientRects\<close> is the length of \<open>getClientRects()\<close>, \<open>boundingClientRect\<close> the value
  of \<open>getBoundingClientRect()\<close>.
\<close>

record props =
  alt :: string
  src :: string
  href :: string
  input_value :: string
  innerText :: "string option"
  offsetWidth :: int
  offsetHeight :: int
  clientRects :: nat
  boundingClientRect :: rect

datatype node =
    Element string "(string \<times> string) list" props "node list"
  | Text string
  | Comment string

fun nodeName :: "node \<Rightarrow> string" where
  "nodeName (Element name attributes p children) = name"
| "nodeName (Text d) = ''#text''"
| "nodeName (Comment d) = ''#comment''"

fun nodeType :: "node \<Rightarrow> nat" where
  "nodeType (Element name attributes p children) = 1"
| "nodeType (Text d) = 3"
| "nodeType (Comment d) = 8"

fun childNodes :: "node \<Rightarrow> node list" where
  "childNodes (Element name attributes p children) = children"
| "childNodes (Text d) = []"
| "childNodes (Comment d) = []"

text \<open>The properties of an element; the source reads them on elements only.\<close>

definition no_props :: props where
  "no_props = \<lparr>alt = [], src = [], href = [], input_value = [], innerText = None,
     offsetWidth = 0, offsetHeight = 0, clientRects = 0,
     boundingClientRect = \<lparr>rect_left = 0, rect_right = 0, rect_top = 0, rect_bottom = 0\<rparr>\<rparr>"

fun props_of :: "node \<Rightarrow> props" where
  "props_of (Element name attributes p children) = p"
| "props_of (Text d) = no_props"
| "props_of (Comment d) = no_props"

text \<open>
  \<open>textContent\<close>: the data of a text node or a comment; for an element, the data of
  the text nodes below it, in document order.
\<close>

fun descendant_text :: "node \<Rightarrow> string" where
  "descendant_text (Element name attributes p children) = concat (map descendant_text children)"
| "descendant_text (Text d) = d"
| "descendant_text (Comment d) = []"

fun textContent :: "node \<Rightarrow> string" where
  "textContent (Comment d) = d"
| "textContent n = descendant_text n"

text \<open>The elements below a node, in document order, as \<open>querySelectorAll\<close> visits them.\<close>

fun descendants :: "node \<Rightarrow> node list" where
  "descendants (Element name attributes p children) =
     concat (map (\<lambda>c. (if nodeType c = 1 then [c] else []) @ descendants c) children)"
| "descendants (Text d) = []"
| "descendants (Comment d) = []"

text \<open>
  \<open>String.prototype.toLowerCase\<close> on the code units below 256: the letters A to Z and
  the capital letters of Latin-1.
\<close>

definition upper_chars :: string where
  "upper_chars = ''ABCDEFGHIJKLMNOPQRSTUVWXYZ'' @
     [CHR 0xC0, CHR 0xC1, CHR 0xC2, CHR 0xC3, CHR 0xC4, CHR 0xC5, CHR 0xC6, CHR 0xC7,
      CHR 0xC8, CHR 0xC9, CHR 0xCA, CHR 0xCB, CHR 0xCC, CHR 0xCD, CHR 0xCE, CHR 0xCF,
      CHR 0xD0, CHR 0xD1, CHR 0xD2, CHR 0xD3, CHR 0xD4, CHR 0xD5, CHR 0xD6,
      CHR 0xD8, CHR 0xD9, CHR 0xDA, CHR 0xDB, CHR 0xDC, CHR 0xDD, CHR 0xDE]"

definition lower_chars :: string where
  "lower_chars = ''abcdefghijklmnopqrstuvwxyz'' @
     [CHR 0xE0, CHR 0xE1, CHR 0xE2, CHR 0xE3, CHR 0xE4, CHR 0xE5, CHR 0xE6, CHR 0xE7,
      CHR 0xE8, CHR 0xE9, CHR 0xEA, CHR 0xEB, CHR 0xEC, CHR 0xED, CHR 0xEE, CHR 0xEF,
      CHR 0xF0, CHR 0xF1, CHR 0xF2, CHR 0xF3, CHR 0xF4, CHR 0xF5, CHR 0xF6,
      CHR 0xF8, CHR 0xF9, CHR 0xFA, CHR 0xFB, CHR 0xFC, CHR 0xFD, CHR 0xFE]"

definition toLowerCase :: "string \<Rightarrow> string" where
  "toLowerCase s =
     map (\<lambda>c. case map_of (zip upper_chars lower_chars) c of None \<Rightarrow> c | Some l \<Rightarrow> l) s"

text \<open>
  Where a node stands: the \<open>nodeName\<close> of its parent (\<open>None\<close> when \<open>parentNode\<close> is
  \<open>null\<close>), and the siblings before and after it, in document order.
\<close>

record position =
  parentName :: "string option"
  before :: "node list"
  after :: "node list"

text \<open>
  \<open>previousElementSibling\<close>, as the siblings that stand before the element found (the
  loop below goes on from there), and \<open>nextElementSibling\<close>.
\<close>

definition previousElementSibling :: "node list \<Rightarrow> node list option" where
  "previousElementSibling bef =
     (case dropWhile (\<lambda>n. nodeType n \<noteq> 1) (rev bef) of
        [] \<Rightarrow> None
      | sibling # earlier \<Rightarrow> Some (rev earlier))"

definition nextElementSibling :: "node list \<Rightarrow> node option" where
  "nextElementSibling aft = find (\<lambda>n. nodeType n = 1) aft"

lemma previousElementSibling_length:
  "previousElementSibling bef = Some earlier \<Longrightarrow> length earlier < length bef"
proof -
  assume a: "previousElementSibling bef = Some earlier"
  then obtain sibling where "dropWhile (\<lambda>n. nodeType n \<noteq> 1) (rev bef) = sibling # rev earlier"
    by (auto simp: previousElementSibling_def split: list.splits)
  then have "length (sibling # rev earlier) \<le> length (rev bef)"
    by (metis length_dropWhile_le)
  then show ?thesis by simp
qed

text \<open>\<open>while((sibling = sibling.previousElementSibling)) index++\<close>\<close>

function index_loop :: "node list \<Rightarrow> nat \<Rightarrow> nat" where
  "index_loop bef index =
     (case previousElementSibling bef of
        None \<Rightarrow> index
      | Some earlier \<Rightarrow> index_loop earlier (index + 1))"
  by pat_completeness auto
termination
  by (relation "measure (\<lambda>(bef, index). length bef)")
    (auto dest: previousElementSibling_length)

declare index_loop.simps [simp del]

text \<open>
  The index of a list item: \<open>null\<close> unless the parent is an \<open>ol\<close>. Reading
  \<open>node.parentNode.nodeName\<close> raises a TypeError when there is no parent.
\<close>

definition li_index :: "position \<Rightarrow> error + nat option" where
  "li_index pos =
     (case parentName pos of
        None \<Rightarrow> Inl TypeError
      | Some name \<Rightarrow>
          if toLowerCase name = ''ol'' then Inr (Some (index_loop (before pos) 1))
          else Inr None)"

section \<open>Extractor\<close>

record options =
  images :: bool
  links :: bool
  excludeHidden :: bool
  exclude :: "string list option"

text \<open>
  \<open>Element.matches\<close> belongs to the DOM library: the model takes it as a function of
  the selector, the place of the node and the node, which may raise a SyntaxError.
\<close>

type_synonym matcher = "string \<Rightarrow> position \<Rightarrow> node \<Rightarrow> error + bool"

datatype text_property = InnerText | TextContent

text \<open>
  The fields of an \<open>Extractor\<close> that its constructor sets, and the traversal state
  that \<open>extract\<close> sets up, with the document.
\<close>

record extractor =
  nodes :: "(position \<times> node) list"
  options :: options
  textProperty :: text_property
  isDomReal :: bool
  pageBounds :: "rect option"
  matches :: matcher

record state =
  justAppendedBr :: bool
  inBlockquote :: bool
  groupWithNext :: bool
  document :: document

definition HEADING_TAGS :: "string list" where
  "HEADING_TAGS = [''h1'', ''h2'', ''h3'', ''h4'', ''h5'', ''h6'']"

definition BLOCK_INITIATING_TAGS :: "string list" where
  "BLOCK_INITIATING_TAGS =
     [''address'', ''article'', ''aside'', ''body'', ''blockquote'', ''div'', ''dd'', ''dl'',
      ''dt'', ''figure'', ''footer'', ''header'', ''li'', ''main'', ''nav'', ''ol'', ''p'',
      ''pre'', ''section'', ''td'', ''th'', ''ul'']"

definition SKIP_TAGS :: "string list" where
  "SKIP_TAGS = [''head'', ''style'', ''script'', ''noscript'']"

text \<open>
  \<open>this.ENHANCERS[nodeName]\<close>. The lookup goes through the prototype chain of the
  object literal, so the names \<open>constructor\<close> and \<open>__proto__\<close> find a value too, one
  that is no string.
\<close>

datatype enhancer = Marker string | Inherited

definition ENHANCERS :: "string \<Rightarrow> enhancer option" where
  "ENHANCERS name =
     (if name = ''b'' \<or> name = ''strong'' then Some (Marker ''**'')
      else if name = ''i'' \<or> name = ''em'' then Some (Marker ''*'')
      else if name = ''constructor'' \<or> name = ''__proto__'' then Some Inherited
      else None)"

text \<open>
  \<open>node.querySelectorAll(this.BREAK_TAGS_QUERY)\<close>: the elements below the node whose
  name is a heading tag or a block-initiating tag.
\<close>

definition querySelectorAll_BREAK_TAGS :: "node \<Rightarrow> node list" where
  "querySelectorAll_BREAK_TAGS node =
     filter (\<lambda>e. toLowerCase (nodeName e) \<in> set (HEADING_TAGS @ BLOCK_INITIATING_TAGS))
       (descendants node)"

text \<open>\<open>parseInt\<close> of one character, for the digit of a heading tag.\<close>

definition parseInt_char :: "char \<Rightarrow> nat" where
  "parseInt_char c = length (takeWhile (\<lambda>d. d \<noteq> c) ''0123456789'')"

text \<open>Sequencing of steps that may raise: the first exception ends the run.\<close>

definition and_then :: "error + 'a \<Rightarrow> ('a \<Rightarrow> error + 'b) \<Rightarrow> error + 'b" where
  "and_then r f = (case r of Inl e \<Rightarrow> Inl e | Inr x \<Rightarrow> f x)"

lemma and_then_cong [fundef_cong]:
  "r = r' \<Longrightarrow> (\<And>x. r' = Inr x \<Longrightarrow> f x = f' x) \<Longrightarrow> and_then r f = and_then r' f'"
  by (auto simp: and_then_def split: sum.splits)

text \<open>\<open>this.document.push(...)\<close> and \<open>this.document.break(...)\<close>, called by the extractor.\<close>

definition document_push :: "segment \<Rightarrow> state \<Rightarrow> state" where
  "document_push segment s = s\<lparr>document := push segment (document s)\<rparr>"

definition document_break :: "block \<Rightarrow> state \<Rightarrow> error + state" where
  "document_break blockType s =
     and_then (break (inBlockquote s) blockType (document s))
       (\<lambda>d. Inr (s\<lparr>document := d\<rparr>))"

text \<open>
  The loop over \<open>this.options.exclude\<close>. A node that is no element has no method
  \<open>matches\<close>, and the call raises a TypeError.
\<close>

fun exclude_loop :: "matcher \<Rightarrow> position \<Rightarrow> node \<Rightarrow> string list \<Rightarrow> error + bool" where
  "exclude_loop m pos node [] = Inr False"
| "exclude_loop m pos node (selector # rest) =
     (if nodeType node \<noteq> 1 then Inl TypeError
      else and_then (m selector pos node)
             (\<lambda>matched. if matched then Inr True else exclude_loop m pos node rest))"

definition excluded :: "extractor \<Rightarrow> position \<Rightarrow> node \<Rightarrow> error + bool" where
  "excluded E pos node =
     (case exclude (options E) of
        None \<Rightarrow> Inr False
      | Some selectors \<Rightarrow> exclude_loop (matches E) pos node selectors)"

text \<open>
  \<open>isElementVisible\<close>. The call of \<open>getComputedStyle\<close> is left out: its result is not
  used. Reading \<open>this.pageBounds.right\<close> raises a TypeError when the bounds are \<open>null\<close>.
\<close>

definition isElementVisible :: "extractor \<Rightarrow> node \<Rightarrow> error + bool" where
  "isElementVisible E node =
     (if \<not> isDomReal E then Inr True
      else if nodeType node \<noteq> 1 then Inr True
      else if offsetWidth (props_of node) = 0 \<and> offsetHeight (props_of node) = 0
              \<and> clientRects (props_of node) = 0 then Inr False
      else
        (let nodeBounds = boundingClientRect (props_of node)
         in case pageBounds E of
              None \<Rightarrow> Inl TypeError
            | Some bounds \<Rightarrow>
                Inr (rect_left nodeBounds < rect_right bounds
                     \<and> rect_right nodeBounds > rect_left bounds
                     \<and> rect_top nodeBounds < rect_bottom bounds
                     \<and> rect_bottom nodeBounds > rect_top bounds)))"

definition hidden :: "extractor \<Rightarrow> node \<Rightarrow> error + bool" where
  "hidden E node =
     (if excludeHidden (options E)
      then and_then (isElementVisible E node) (\<lambda>visible. Inr (\<not> visible))
      else Inr False)"

text \<open>
  \<open>Utils.isPresent(node[this.textProperty])\<close>: when the node has no such property the
  argument is \<open>undefined\<close>, and calling its \<open>search\<close> raises a TypeError.
\<close>

definition text_isPresent :: "extractor \<Rightarrow> node \<Rightarrow> error + bool" where
  "text_isPresent E node =
     (case textProperty E of
        TextContent \<Rightarrow> Inr (isPresent (textContent node))
      | InnerText \<Rightarrow>
          (case innerText (props_of node) of
             None \<Rightarrow> Inl TypeError
           | Some t \<Rightarrow> Inr (isPresent t)))"

fun node_size :: "node \<Rightarrow> nat" where
  "node_size (Element name attributes p children) = Suc (sum_list (map node_size children))"
| "node_size (Text d) = 1"
| "node_size (Comment d) = 1"

lemma node_size_childNodes: "node_size node = Suc (sum_list (map node_size (childNodes node)))"
  by (cases node) auto

text \<open>
  \<open>process\<close>, \<open>processFlowContent\<close> and \<open>processChildren\<close>; \<open>children_loop\<close> is the
  loop of \<open>processChildren\<close> over \<open>node.childNodes\<close>, which hands each child its place.

  A span built from an inherited enhancer holds a value that is no string; the next
  \<open>finish\<close> raises a TypeError on it, in \<open>isPresent\<close> or in \<open>join\<close>, and every run of
  \<open>extract\<close> ends with a \<open>finish\<close>: the run ends in an exception. The model raises the
  TypeError at once.
\<close>

function process :: "extractor \<Rightarrow> position \<Rightarrow> node \<Rightarrow> state \<Rightarrow> error + state"
  and processFlowContent :: "extractor \<Rightarrow> node \<Rightarrow> state \<Rightarrow> error + state"
  and processChildren :: "extractor \<Rightarrow> node \<Rightarrow> state \<Rightarrow> error + state"
  and children_loop :: "extractor \<Rightarrow> string \<Rightarrow> node list \<Rightarrow> node list \<Rightarrow> state \<Rightarrow> error + state"
where
  "process E pos node s0 =
     (let name = toLowerCase (nodeName node) in
      if name \<in> set SKIP_TAGS then Inr s0
      else and_then (excluded E pos node) (\<lambda>is_excluded.
        if is_excluded then Inr s0
        else and_then (hidden E node) (\<lambda>is_hidden.
          if is_hidden then Inr s0
          else if name = ''br'' \<and> justAppendedBr s0
            then document_break Paragraph (s0\<lparr>justAppendedBr := False\<rparr>)
          else
            (let s = (if name = ''br'' then s0\<lparr>justAppendedBr := True\<rparr>
                      else if justAppendedBr s0
                        then document_push (Str [newline]) (s0\<lparr>justAppendedBr := False\<rparr>)
                      else s0)
             in
             if nodeType node = 3
               then Inr (document_push (new_Span (textContent node) False) s)
             else if ENHANCERS name \<noteq> None then
               and_then (text_isPresent E node) (\<lambda>present.
                 if \<not> present then Inr s
                 else (case ENHANCERS name of
                         Some (Marker marker) \<Rightarrow>
                           (let enhancer = new_Span marker True
                            in and_then (processChildren E node (document_push enhancer s))
                                 (\<lambda>s'. Inr (document_push enhancer s')))
                       | _ \<Rightarrow> Inl TypeError))
             else if images (options E) \<and> name = ''img'' then
               Inr (document_push
                      (new_Span (''!['' @ escape (alt (props_of node)) @ '']('' @ src (props_of node) @ '')'')
                         True) s)
             else if links (options E) \<and> name = ''a'' then
               and_then (text_isPresent E node) (\<lambda>present.
                 if \<not> present then Inr s
                 else if length (querySelectorAll_BREAK_TAGS node) \<noteq> 0
                   then processChildren E node s
                 else
                   and_then (processChildren E node (document_push (new_Span ''['' True) s))
                     (\<lambda>s'. Inr (document_push
                                   (new_Span ('']('' @ href (props_of node) @ '')'') True) s')))
             else if name = ''blockquote'' then
               and_then (document_break Paragraph (s\<lparr>inBlockquote := True\<rparr>)) (\<lambda>s1.
                 and_then (processFlowContent E node s1) (\<lambda>s2.
                   Inr (s2\<lparr>inBlockquote := False\<rparr>)))
             else if name = ''li'' then
               and_then (li_index pos) (\<lambda>index.
                 and_then
                   (document_break (ListItem (nextElementSibling (after pos) = None) index) s)
                   (\<lambda>s1. processFlowContent E node s1))
             else if name = ''dt'' then
               and_then (document_break DefinitionTerm s) (\<lambda>s1. processFlowContent E node s1)
             else if name = ''dd'' then
               and_then
                 (document_break (DefinitionDescription (nextElementSibling (after pos) = None)) s)
                 (\<lambda>s1. processFlowContent E node s1)
             else if name = ''pre'' then
               and_then (document_break Pre s) (\<lambda>s1.
                 and_then (processChildren E node s1) (\<lambda>s2. document_break Paragraph s2))
             else if name = ''textarea'' then
               and_then (document_break Pre s) (\<lambda>s1.
                 document_break Paragraph
                   (document_push (new_Span (input_value (props_of node)) False) s1))
             else if name \<in> set BLOCK_INITIATING_TAGS then
               and_then
                 (if groupWithNext s then Inr (s\<lparr>groupWithNext := False\<rparr>)
                  else document_break Paragraph s)
                 (\<lambda>s1. and_then (processChildren E node s1) (\<lambda>s2. document_break Paragraph s2))
             else if name \<in> set HEADING_TAGS then
               and_then (document_break (Heading (parseInt_char (name ! 1))) s) (\<lambda>s1.
                 and_then (processChildren E node s1) (\<lambda>s2. document_break Paragraph s2))
             else processChildren E node s))))"
| "processFlowContent E node s =
     and_then (processChildren E node (s\<lparr>groupWithNext := True\<rparr>))
       (\<lambda>s1. document_break Paragraph (s1\<lparr>groupWithNext := False\<rparr>))"
| "processChildren E node s = children_loop E (nodeName node) [] (childNodes node) s"
| "children_loop E parent bef [] s = Inr s"
| "children_loop E parent bef (child # rest) s =
     and_then (process E \<lparr>parentName = Some parent, before = bef, after = rest\<rparr> child s)
       (\<lambda>s1. children_loop E parent (bef @ [child]) rest s1)"
  by pat_completeness auto
termination
  by (relation "measure (\<lambda>x. case x of
        Inl (Inl (E, pos, node, s)) \<Rightarrow> 4 * sum_list (map node_size (childNodes node)) + 3
      | Inl (Inr (E, node, s)) \<Rightarrow> 4 * sum_list (map node_size (childNodes node)) + 2
      | Inr (Inl (E, node, s)) \<Rightarrow> 4 * sum_list (map node_size (childNodes node)) + 1
      | Inr (Inr (E, parent, bef, rest, s)) \<Rightarrow> 4 * sum_list (map node_size rest))")
    (simp_all add: node_size_childNodes)

declare process.simps [simp del]

section \<open>The constructor, extract and the exported function\<close>

text \<open>
  What the source reads of \<open>nodes[0].ownerDocument\<close>: \<open>hidden\<close> (the field
  \<open>doc_hidden\<close>), the \<open>scrollWidth\<close> of the document element, and the \<open>scrollHeight\<close>
  of each element that \<open>documentElement.querySelectorAll("*")\<close> returns.
\<close>

record dom_document =
  doc_hidden :: bool
  scrollWidth :: int
  scrollHeights :: "int list"

text \<open>
  The input is one value or an array of values. A value is a node, standing at some
  place of its document, or a \<open>Document\<close> or a \<open>Window\<close>, which \<open>convertNode\<close>
  replaces by the document element.
\<close>

datatype input_item =
    NodeItem dom_document position node
  | DocumentItem dom_document node
  | WindowItem dom_document node

datatype input = Single input_item | Array "input_item list"

fun arrayify :: "input \<Rightarrow> input_item list" where
  "arrayify (Array items) = items"
| "arrayify (Single item) = [item]"

definition root_position :: position where
  "root_position = \<lparr>parentName = Some ''#document'', before = [], after = []\<rparr>"

fun convertNode :: "input_item \<Rightarrow> dom_document \<times> position \<times> node" where
  "convertNode (DocumentItem doc documentElement) = (doc, root_position, documentElement)"
| "convertNode (WindowItem doc documentElement) = (doc, root_position, documentElement)"
| "convertNode (NodeItem doc pos node) = (doc, pos, node)"

text \<open>\<open>Object.assign({ images: true, links: true, excludeHidden: true }, options)\<close>\<close>

record user_options =
  opt_images :: "bool option"
  opt_links :: "bool option"
  opt_excludeHidden :: "bool option"
  opt_exclude :: "string list option"

definition no_options :: user_options where
  "no_options = \<lparr>opt_images = None, opt_links = None, opt_excludeHidden = None, opt_exclude = None\<rparr>"

definition assign_options :: "user_options \<Rightarrow> options" where
  "assign_options u =
     \<lparr>images = (case opt_images u of None \<Rightarrow> True | Some b \<Rightarrow> b),
      links = (case opt_links u of None \<Rightarrow> True | Some b \<Rightarrow> b),
      excludeHidden = (case opt_excludeHidden u of None \<Rightarrow> True | Some b \<Rightarrow> b),
      exclude = opt_exclude u\<rparr>"

text \<open>The loop of \<open>getPageBounds\<close>, with its variable \<open>tallestHeight\<close>.\<close>

fun tallest_loop :: "int list \<Rightarrow> int \<Rightarrow> int" where
  "tallest_loop [] tallestHeight = tallestHeight"
| "tallest_loop (elementHeight # rest) tallestHeight =
     tallest_loop rest (if elementHeight > tallestHeight then elementHeight else tallestHeight)"

definition getPageBounds :: "bool \<Rightarrow> options \<Rightarrow> dom_document \<Rightarrow> rect option" where
  "getPageBounds domReal opts doc =
     (if \<not> domReal \<or> \<not> excludeHidden opts then None
      else Some \<lparr>rect_left = 0, rect_right = of_int (scrollWidth doc), rect_top = 0,
                 rect_bottom = of_int (tallest_loop (scrollHeights doc) 0)\<rparr>)"

text \<open>\<open>"innerText" in this.nodes[0]\<close>\<close>

fun has_innerText :: "node \<Rightarrow> bool" where
  "has_innerText (Element name attributes p children) = (innerText p \<noteq> None)"
| "has_innerText (Text d) = False"
| "has_innerText (Comment d) = False"

text \<open>
  The constructor. When there is no node it returns before it sets \<open>textProperty\<close>,
  \<open>isDomReal\<close> and \<open>pageBounds\<close>; the values that the model gives them are never read,
  as \<open>extract\<close> then processes nothing.
\<close>

definition new_Extractor :: "matcher \<Rightarrow> input \<Rightarrow> user_options \<Rightarrow> extractor" where
  "new_Extractor m inp u =
     (let converted = map convertNode (arrayify inp);
          opts = assign_options u
      in case converted of
           [] \<Rightarrow>
             \<lparr>nodes = [], options = opts, textProperty = TextContent, isDomReal = False,
              pageBounds = None, matches = m\<rparr>
         | (domDocument, pos, first) # rest \<Rightarrow>
             (let domReal = \<not> doc_hidden domDocument
              in \<lparr>nodes = map snd converted, options = opts,
                   textProperty = (if has_innerText first then InnerText else TextContent),
                   isDomReal = domReal,
                   pageBounds = getPageBounds domReal opts domDocument,
                   matches = m\<rparr>))"

text \<open>The loop of \<open>extract\<close> over \<open>this.nodes\<close>.\<close>

fun extract_loop :: "extractor \<Rightarrow> (position \<times> node) list \<Rightarrow> state \<Rightarrow> error + state" where
  "extract_loop E [] s = Inr s"
| "extract_loop E ((pos, node) # rest) s =
     and_then (document_break Paragraph s) (\<lambda>s1.
       and_then (process E pos node s1) (\<lambda>s2.
         and_then (document_break Paragraph s2) (\<lambda>s3. extract_loop E rest s3)))"

definition initial_state :: state where
  "initial_state =
     \<lparr>justAppendedBr = False, inBlockquote = False, groupWithNext = False,
      document = new_Document\<rparr>"

definition "extract" :: "extractor \<Rightarrow> error + string" where
  "extract E =
     and_then (extract_loop E (nodes E) initial_state)
       (\<lambda>s. Inr (trim (getContent (document s))))"

text \<open>The default export: \<open>(new Extractor(input, options)).extract()\<close>.\<close>

definition deba :: "matcher \<Rightarrow> input \<Rightarrow> user_options \<Rightarrow> error + string" where
  "deba m inp u = extract (new_Extractor m inp u)"

section \<open>Vocabulary of the properties\<close>

text \<open>A string has a white-space run when two neighbouring characters are both white space.\<close>

fun has_ws_run :: "string \<Rightarrow> bool" where
  "has_ws_run (a # b # cs) = (is_space a \<and> is_space b \<or> has_ws_run (b # cs))"
| "has_ws_run _ = False"

text \<open>
  A string is tidy when each of its white-space characters is a space and is followed
  by a character that is not white space (or by nothing).
\<close>

fun tidy :: "string \<Rightarrow> bool" where
  "tidy [] = True"
| "tidy [c] = (is_space c \<longrightarrow> c = CHR '' '')"
| "tidy (a # b # cs) = ((is_space a \<longrightarrow> a = CHR '' '' \<and> \<not> is_space b) \<and> tidy (b # cs))"

text \<open>
  The characters that \<open>escape\<close> touches only in some positions: the block-start
  class, the ampersand and the full stop.
\<close>

definition conditional_chars :: string where
  "conditional_chars = block_start_chars @ ''&.''"

text \<open>
  \<open>escaped_from must may cs ds\<close>: the string \<open>ds\<close> is the string \<open>cs\<close> in which
  every character of \<open>must\<close> has got exactly one backslash in front of it, some
  characters of \<open>may\<close> have got one too, and nothing else has changed.
\<close>

inductive escaped_from :: "string \<Rightarrow> string \<Rightarrow> string \<Rightarrow> string \<Rightarrow> bool"
  for must may where
  Done: "escaped_from must may [] []"
| Keep: "c \<notin> set must \<Longrightarrow> escaped_from must may cs ds \<Longrightarrow> escaped_from must may (c # cs) (c # ds)"
| Esc: "b = backslash \<Longrightarrow> c \<in> set (must @ may) \<Longrightarrow> escaped_from must may cs ds \<Longrightarrow>
        escaped_from must may (c # cs) (b # c # ds)"

code_pred escaped_from .

text \<open>
  The Renderer as the specification describes it: a bare string goes out as it is, a
  maximal run of spans goes out joined and normalised.
\<close>

fun is_Span :: "segment \<Rightarrow> bool" where
  "is_Span (Span t) = True"
| "is_Span (Str s) = False"

function render :: "segment list \<Rightarrow> string" where
  "render [] = []"
| "render (Str t # rest) = t @ render rest"
| "render (Span t # rest) =
     normalise (join_segments (Span t # takeWhile is_Span rest)) @ render (dropWhile is_Span rest)"
  by pat_completeness auto
termination
  by (relation "measure length") (auto simp: less_Suc_eq_le length_dropWhile_le)

text \<open>
  The state of \<open>chunk_loop\<close> read as output: the type of the open chunk, as a string,
  and what the open chunk and the segments still to come will render to.
\<close>

definition type_name :: "bool \<Rightarrow> string" where
  "type_name b = (if b then ''Span'' else ''String'')"

definition render_from :: "bool \<Rightarrow> segment list \<Rightarrow> segment list \<Rightarrow> string" where
  "render_from b cur xs =
     (if b then normalise (join_segments (cur @ takeWhile is_Span xs)) @ render (dropWhile is_Span xs)
      else join_segments cur @ render xs)"

text \<open>
  The preformatted block in the words of the specification: the children's text is
  concatenated and split into paragraphs on runs of two or more newlines, each
  paragraph is normalised, the empty ones are dropped, the others are joined with a
  blank line and a blank line is appended; with no paragraph left the block renders
  as nothing.
\<close>

definition blank_line :: string where
  "blank_line = [newline, newline]"

definition Pre_spec :: "segment list \<Rightarrow> segment list" where
  "Pre_spec children =
     (let paragraphs = split_newlines (concat (map toString children));
          survivors = filter (\<lambda>p. p \<noteq> []) (map normalise paragraphs)
      in if survivors = [] then [] else [Str (join blank_line survivors @ blank_line)])"

text \<open>
  A node that \<open>process\<close> does not skip: its name is no skip tag, no selector of the
  caller excludes it, and it is not hidden.
\<close>

definition proceeds :: "extractor \<Rightarrow> position \<Rightarrow> node \<Rightarrow> bool" where
  "proceeds E pos node \<longleftrightarrow>
     toLowerCase (nodeName node) \<notin> set SKIP_TAGS \<and> excluded E pos node = Inr False
       \<and> hidden E node = Inr False"

text \<open>What \<open>process\<close> does first for a node that is no line break.\<close>

definition deferred_newline :: "state \<Rightarrow> state" where
  "deferred_newline s =
     (if justAppendedBr s then document_push (Str [newline]) (s\<lparr>justAppendedBr := False\<rparr>) else s)"

text \<open>A block is pending: \<open>this.args\<close> of the document starts with a block constructor.\<close>

definition pending :: "state \<Rightarrow> bool" where
  "pending s \<longleftrightarrow> args (document s) \<noteq> None"

definition is_element :: "node \<Rightarrow> bool" where
  "is_element n \<longleftrightarrow> nodeType n = 1"

text \<open>
  The children of a node with their places, in document order, and the processing of
  nodes with their places one after the other.
\<close>

fun places :: "string \<Rightarrow> node list \<Rightarrow> node list \<Rightarrow> (position \<times> node) list" where
  "places parent bef [] = []"
| "places parent bef (child # rest) =
     (\<lparr>parentName = Some parent, before = bef, after = rest\<rparr>, child)
       # places parent (bef @ [child]) rest"

fun process_each :: "extractor \<Rightarrow> (position \<times> node) list \<Rightarrow> state \<Rightarrow> error + state" where
  "process_each E [] s = Inr s"
| "process_each E ((pos, node) # rest) s =
     and_then (process E pos node s) (\<lambda>s1. process_each E rest s1)"

text \<open>
  The setting of the examples: a document without layout (\<open>hidden\<close> is true, as in the
  DOM library of the command-line tool), no selector that matches, a node standing
  alone in the body, and the extractor as the constructor sets it up there, for nodes
  without \<open>innerText\<close>.
\<close>

definition plain_document :: dom_document where
  "plain_document = \<lparr>doc_hidden = True, scrollWidth = 0, scrollHeights = []\<rparr>"

definition never_matches :: matcher where
  "never_matches selector pos node = Inr False"

definition body_position :: position where
  "body_position = \<lparr>parentName = Some ''BODY'', before = [], after = []\<rparr>"

definition plain_extractor :: "user_options \<Rightarrow> extractor" where
  "plain_extractor u =
     \<lparr>nodes = [], options = assign_options u, textProperty = TextContent, isDomReal = False,
      pageBounds = None, matches = never_matches\<rparr>"

definition element :: "string \<Rightarrow> node list \<Rightarrow> node" where
  "element name children = Element name [] no_props children"

definition convert :: "node \<Rightarrow> user_options \<Rightarrow> error + string" where
  "convert node u = deba never_matches (Single (NodeItem plain_document body_position node)) u"

text \<open>The output buffer at the end of the loop of \<open>extract\<close>, before it is trimmed.\<close>

definition accumulated :: "extractor \<Rightarrow> error + string" where
  "accumulated E =
     and_then (extract_loop E (nodes E) initial_state) (\<lambda>s. Inr (getContent (document s)))"

definition ul_example :: node where
  "ul_example = element ''UL'' [element ''LI'' [Text ''a''], element ''LI'' [Text ''b'']]"

definition br :: node where
  "br = element ''BR'' []"

definition ol_example :: node where
  "ol_example = Element ''OL'' [(''start'', ''5'')] no_props
     [Element ''LI'' [(''value'', ''7'')] no_props [Text ''x''], Text '' '',
      Element ''LI'' [] no_props [Text ''y'']]"

text \<open>
  The anchor \<open><a href="http://e.com">t</a>\<close> as a DOM that follows the standards hands
  it over: the attribute holds the text of the markup, and the property \<open>href\<close>, which
  the source reads, is the serialised URL, \<open>http://e.com/\<close>, with the path \<open>/\<close> that
  the serialisation gives a host alone.
\<close>

definition anchor_example :: node where
  "anchor_example =
     Element ''A'' [(''href'', ''http://e.com'')] (no_props\<lparr>href := ''http://e.com/''\<rparr>) [Text ''t'']"

section \<open>Properties of normalise\<close>

lemma tidy_Cons: "tidy (c # cs) \<Longrightarrow> tidy cs"
  by (cases cs) auto

lemma tidy_collapse_ws: "tidy (collapse_ws s)"
proof (induction s rule: collapse_ws.induct)
  case 1
  show ?case by simp
next
  case (2 c cs)
  show ?case
  proof (cases "is_space c")
    case True
    define r where "r = dropWhile is_space cs"
    have t: "tidy (collapse_ws r)" using 2(1) True by (simp add: r_def)
    have h: "r = [] \<or> \<not> is_space (hd r)"
      unfolding r_def using hd_dropWhile[of is_space cs] by blast
    have "collapse_ws r = [] \<or> \<not> is_space (hd (collapse_ws r))"
      using h by (cases r) auto
    with t have "tidy (CHR '' '' # collapse_ws r)"
      by (cases "collapse_ws r") auto
    with True show ?thesis by (simp add: r_def)
  next
    case False
    with 2(2) have "tidy (collapse_ws cs)" by simp
    with False show ?thesis by (cases "collapse_ws cs") auto
  qed
qed

lemma collapse_ws_tidy: "tidy s \<Longrightarrow> collapse_ws s = s"
proof (induction s rule: collapse_ws.induct)
  case 1
  show ?case by simp
next
  case (2 c cs)
  show ?case
  proof (cases "is_space c")
    case True
    with 2(3) have c: "c = CHR '' ''" and n: "cs = [] \<or> \<not> is_space (hd cs)"
      by (cases cs; auto)+
    from n have d: "dropWhile is_space cs = cs" by (cases cs) auto
    from 2(3) have "tidy cs" by (rule tidy_Cons)
    with 2(1) True d have "collapse_ws cs = cs" by simp
    with True c d show ?thesis by simp
  next
    case False
    from 2(3) have "tidy cs" by (rule tidy_Cons)
    with 2(2) False show ?thesis by simp
  qed
qed

lemma tidy_append_left: "tidy (xs @ ys) \<Longrightarrow> tidy xs"
proof (induction xs rule: tidy.induct)
  case 1
  show ?case by simp
next
  case (2 c)
  then show ?case by (cases ys) auto
next
  case (3 a b cs)
  then show ?case by auto
qed

lemma tidy_append_right: "tidy (xs @ ys) \<Longrightarrow> tidy ys"
  by (induction xs) (auto dest: tidy_Cons)

lemma tidy_trim: "tidy s \<Longrightarrow> tidy (trim s)"
proof -
  assume t: "tidy s"
  let ?a = "dropWhile is_space s"
  have "s = takeWhile is_space s @ ?a" by simp
  with t have ta: "tidy ?a" by (metis tidy_append_right)
  have "rev ?a = takeWhile is_space (rev ?a) @ dropWhile is_space (rev ?a)" by simp
  then have "?a = rev (dropWhile is_space (rev ?a)) @ rev (takeWhile is_space (rev ?a))"
    by (metis rev_append rev_rev_ident)
  with ta have "tidy (rev (dropWhile is_space (rev ?a)))" by (metis tidy_append_left)
  then show ?thesis by (simp add: trim_def)
qed

lemma trim_idem: "trim (trim s) = trim s"
proof -
  define a where "a = dropWhile is_space s"
  define t where "t = rev (dropWhile is_space (rev a))"
  have a: "a = [] \<or> \<not> is_space (hd a)"
    unfolding a_def using hd_dropWhile[of is_space s] by blast
  have "t = [] \<or> \<not> is_space (hd t)"
  proof (cases "t = []")
    case True then show ?thesis by simp
  next
    case False
    have "a = t @ rev (takeWhile is_space (rev a))"
      unfolding t_def by (metis rev_append rev_rev_ident takeWhile_dropWhile_id)
    with False have "hd a = hd t" by (metis hd_append2)
    moreover from False have "a \<noteq> []" by (auto simp: t_def)
    ultimately show ?thesis using a by simp
  qed
  then have "dropWhile is_space t = t" by (cases t) auto
  then show ?thesis by (simp add: trim_def a_def t_def)
qed

lemma tidy_no_run: "tidy s \<Longrightarrow> \<not> has_ws_run s"
  by (induction s rule: has_ws_run.induct) auto

section \<open>Properties of escape\<close>

lemma escaped_from_always: "escaped_from always_chars [] s (escape_always s)"
  by (induction s) (auto intro: escaped_from.intros simp: always_escaped_def)

lemma escaped_from_refl: "escaped_from [] P xs xs"
  by (induction xs) (auto intro: escaped_from.intros)

lemma escaped_from_prefix:
  "escaped_from [] P xs ys \<Longrightarrow> escaped_from [] P (us @ xs) (us @ ys)"
  by (induction us) (auto intro: escaped_from.intros)

lemma escaped_from_insert:
  "c \<in> set P \<Longrightarrow> escaped_from [] P (us @ c # vs) (us @ backslash # c # vs)"
  by (rule escaped_from_prefix) (auto intro: escaped_from.intros escaped_from_refl)

lemma escaped_from_block_start:
  "escaped_from [] block_start_chars t (escape_block_start t)"
proof (cases "dropWhile is_space t")
  case Nil
  show ?thesis unfolding escape_block_start_def Nil by (simp add: escaped_from_refl)
next
  case (Cons c rest)
  show ?thesis
  proof (cases "block_start c")
    case True
    have "t = takeWhile is_space t @ c # rest"
      using Cons by (metis takeWhile_dropWhile_id)
    then have "escaped_from [] block_start_chars t (takeWhile is_space t @ backslash # c # rest)"
      using escaped_from_insert[of c block_start_chars "takeWhile is_space t" rest] True
      by (simp add: block_start_def)
    then show ?thesis unfolding escape_block_start_def Cons using True by simp
  next
    case False
    then show ?thesis unfolding escape_block_start_def Cons by (simp add: escaped_from_refl)
  qed
qed

lemma lazy_semicolon_append: "lazy_semicolon cs = Some (m, r) \<Longrightarrow> cs = m @ r"
  by (induction cs arbitrary: m r) (auto split: if_splits option.splits)

lemma escaped_from_entities:
  "escaped_from [] ''&'' t (escape_entities t)"
proof (induction t rule: escape_entities.induct)
  case 1
  show ?case by (simp add: escaped_from.Done)
next
  case (2 c cs)
  show ?case
  proof (cases "c = CHR ''&''")
    case False
    with 2(3) show ?thesis by (simp add: escaped_from.Keep)
  next
    case True
    show ?thesis
    proof (cases "lazy_semicolon cs")
      case None
      with True 2(1) show ?thesis by (simp add: escaped_from.Keep)
    next
      case (Some p)
      obtain m r where p: "p = (m, r)" by (cases p)
      with Some have cs: "cs = m @ r" by (simp add: lazy_semicolon_append)
      from 2(2) True Some p
      have "escaped_from [] ''&'' r (escape_entities r)" by simp
      then have "escaped_from [] ''&'' (m @ r) (m @ escape_entities r)"
        by (rule escaped_from_prefix)
      then have "escaped_from [] ''&'' (c # cs) (backslash # c # m @ escape_entities r)"
        using True cs by (simp add: escaped_from.Esc)
      then show ?thesis using True Some p by simp
    qed
  qed
qed

lemma escaped_from_ordinal:
  "escaped_from [] ''.'' t (escape_ordinal t)"
proof -
  define ws where "ws = takeWhile is_space t"
  define r1 where "r1 = dropWhile is_space t"
  define ds where "ds = takeWhile is_digit r1"
  define r2 where "r2 = dropWhile is_digit r1"
  have t: "t = ws @ ds @ r2" by (simp add: ws_def r1_def ds_def r2_def)
  show ?thesis
  proof (cases "ds \<noteq> [] \<and> take 2 r2 = ''. ''")
    case False
    then have "escape_ordinal t = t"
      by (auto simp: escape_ordinal_def Let_def ws_def r1_def ds_def r2_def)
    then show ?thesis by (simp add: escaped_from_refl)
  next
    case True
    define rest where "rest = drop 2 r2"
    from True have e: "escape_ordinal t = ws @ ds @ backslash # ''. '' @ rest"
      by (auto simp: escape_ordinal_def Let_def ws_def r1_def ds_def r2_def rest_def)
    have "r2 = take 2 r2 @ rest" by (simp add: rest_def)
    also have "\<dots> = ''. '' @ rest" using True by simp
    finally have r2: "r2 = ''. '' @ rest" .
    have "escaped_from [] ''.'' ((ws @ ds) @ CHR ''.'' # CHR '' '' # rest)
        ((ws @ ds) @ backslash # CHR ''.'' # CHR '' '' # rest)"
      by (rule escaped_from_insert) simp
    then have "escaped_from [] ''.'' (ws @ ds @ r2) (ws @ ds @ backslash # ''. '' @ rest)"
      by (simp add: r2)
    then show ?thesis using e t by simp
  qed
qed

lemma escaped_from_compose:
  assumes "escaped_from must may xs ys" and "escaped_from [] P ys zs"
    and "backslash \<notin> set P" and "set P \<inter> set (must @ may) = {}"
  shows "escaped_from must (may @ P) xs zs"
  using assms(1,2)
proof (induction arbitrary: zs rule: escaped_from.induct)
  case Done
  then show ?case by (auto elim: escaped_from.cases intro: escaped_from.Done)
next
  case (Keep c cs ds)
  from Keep.prems show ?case
  proof (cases rule: escaped_from.cases)
    case (Keep es)
    then show ?thesis using Keep.hyps Keep.IH by (auto intro: escaped_from.Keep)
  next
    case (Esc b es)
    then show ?thesis using Keep.IH by (auto intro: escaped_from.Esc)
  qed
next
  case (Esc b c cs ds)
  from Esc.hyps assms(4) have nP: "c \<notin> set P" by auto
  from Esc.prems Esc.hyps(1) assms(3) obtain z1
    where z1: "zs = backslash # z1" "escaped_from [] P (c # ds) z1"
    by (auto elim: escaped_from.cases)
  from z1(2) nP obtain z2 where z2: "z1 = c # z2" "escaped_from [] P ds z2"
    by (auto elim: escaped_from.cases)
  from Esc.IH[OF z2(2)] Esc.hyps show ?case
    unfolding z1(1) z2(1) by (auto intro: escaped_from.Esc)
qed

lemma escaped_from_must_only:
  "escaped_from must may xs ys \<Longrightarrow> set xs \<inter> set may = {} \<Longrightarrow>
   ys = concat (map (\<lambda>c. if c \<in> set must then [backslash, c] else [c]) xs)"
  by (induction rule: escaped_from.induct) auto

lemma escaped_from_escape:
  "escaped_from always_chars conditional_chars text (escape text)"
proof -
  let ?t1 = "escape_always text"
  let ?t2 = "escape_block_start ?t1"
  let ?t3 = "escape_entities ?t2"
  have 1: "escaped_from always_chars [] text ?t1" by (rule escaped_from_always)
  have 2: "escaped_from always_chars ([] @ block_start_chars) text ?t2"
    by (rule escaped_from_compose[OF 1 escaped_from_block_start])
      (auto simp: block_start_chars_def always_chars_def)
  have 3: "escaped_from always_chars (([] @ block_start_chars) @ ''&'') text ?t3"
    by (rule escaped_from_compose[OF 2 escaped_from_entities])
      (auto simp: block_start_chars_def always_chars_def)
  have 4: "escaped_from always_chars ((([] @ block_start_chars) @ ''&'') @ ''.'') text (escape text)"
    unfolding escape_def
    by (rule escaped_from_compose[OF 3 escaped_from_ordinal])
      (auto simp: block_start_chars_def always_chars_def)
  then show ?thesis by (simp add: conditional_chars_def)
qed

section \<open>Properties of the Stringifier\<close>

lemma constructor_name_type: "constructor_name x = type_name (is_Span x)"
  by (cases x) (auto simp: type_name_def)

lemma type_name_eq: "type_name a = type_name b \<longleftrightarrow> a = b"
  by (auto simp: type_name_def)

lemma stringify_chunk_type:
  "stringify_chunk (Some (type_name b), cur) = (if b then normalise (join_segments cur) else join_segments cur)"
  by (simp add: stringify_chunk_def type_name_def)

lemma render_from_Nil: "render_from b cur [] = stringify_chunk (Some (type_name b), cur)"
  by (simp add: render_from_def stringify_chunk_type)

lemma render_from_same:
  "is_Span x = b \<Longrightarrow> render_from b cur (x # xs) = render_from b (cur @ [x]) xs"
  by (cases x) (auto simp: render_from_def join_segments_def)

lemma render_from_other:
  "is_Span x \<noteq> b \<Longrightarrow>
   render_from b cur (x # xs) = stringify_chunk (Some (type_name b), cur) @ render_from (is_Span x) [x] xs"
  by (cases x) (auto simp: render_from_def join_segments_def stringify_chunk_type)

lemma chunk_loop_render:
  "cur \<noteq> [] \<Longrightarrow>
   \<exists>chunks'. chunk_loop (map Some xs @ [None]) chunks (Some (type_name b)) cur = Inr (chunks @ chunks')
      \<and> concat (map stringify_chunk chunks') = render_from b cur xs"
proof (induction xs arbitrary: cur chunks b)
  case Nil
  then show ?case by (simp add: render_from_Nil)
next
  case (Cons x xs)
  show ?case
  proof (cases "is_Span x = b")
    case True
    from Cons.IH[of "cur @ [x]" chunks b] True show ?thesis
      by (simp add: constructor_name_type render_from_same)
  next
    case False
    from Cons.IH[of "[x]" "chunks @ [(Some (type_name b), cur)]" "is_Span x"]
    obtain chunks' where c:
      "chunk_loop (map Some xs @ [None]) (chunks @ [(Some (type_name b), cur)])
          (Some (type_name (is_Span x))) [x] = Inr ((chunks @ [(Some (type_name b), cur)]) @ chunks')"
      "concat (map stringify_chunk chunks') = render_from (is_Span x) [x] xs"
      by auto
    have "chunk_loop (map Some (x # xs) @ [None]) chunks (Some (type_name b)) cur
        = Inr (chunks @ ((Some (type_name b), cur) # chunks'))"
      using False Cons.prems c(1) by (simp add: constructor_name_type type_name_eq)
    moreover have "concat (map stringify_chunk ((Some (type_name b), cur) # chunks'))
        = render_from b cur (x # xs)"
      using False c(2) by (simp add: render_from_other)
    ultimately show ?thesis by blast
  qed
qed

lemma render_from_start: "render_from (is_Span x) [x] xs = render (x # xs)"
  by (cases x) (auto simp: render_from_def join_segments_def)

lemma stringify_render: "xs \<noteq> [] \<Longrightarrow> stringify xs = Inr (render xs)"
proof (cases xs)
  case Nil
  assume "xs \<noteq> []"
  with Nil show ?thesis by simp
next
  case (Cons x rest)
  from chunk_loop_render[of "[x]" rest "[]" "is_Span x"]
  obtain chunks' where
    "chunk_loop (map Some rest @ [None]) [] (Some (type_name (is_Span x))) [x] = Inr chunks'"
    "concat (map stringify_chunk chunks') = render_from (is_Span x) [x] rest"
    by auto
  then show ?thesis using Cons
    by (simp add: stringify_def chunkUpSegments_def constructor_name_type render_from_start)
qed

lemma stringify_Nil: "stringify [] = Inl TypeError"
  by (simp add: stringify_def chunkUpSegments_def)

lemma takeWhile_append_Str:
  "takeWhile is_Span (xs @ Str t # post) = takeWhile is_Span xs"
  by (induction xs) auto

lemma dropWhile_append_Str:
  "dropWhile is_Span (xs @ Str t # post) = dropWhile is_Span xs @ Str t # post"
  by (induction xs) auto

lemma render_Str_split: "render (pre @ Str t # post) = render pre @ t @ render post"
proof (induction pre rule: render.induct)
  case 1
  show ?case by simp
next
  case (2 u rest)
  then show ?case by simp
next
  case (3 u rest)
  then show ?case by (simp add: takeWhile_append_Str dropWhile_append_Str)
qed

lemma render_snoc_Str: "render (xs @ [Str t]) = render xs @ t"
  using render_Str_split[of xs t "[]"] by simp

lemma render_all_Str: "render (map Str ts) = concat ts"
  by (induction ts) auto

section \<open>Properties of the preformatted block\<close>

lemma trim_last: "trim s \<noteq> [] \<Longrightarrow> \<not> is_space (last (trim s))"
proof -
  assume a: "trim s \<noteq> []"
  define r where "r = dropWhile is_space (rev (dropWhile is_space s))"
  from a have "r \<noteq> []" by (simp add: trim_def r_def)
  then have "\<not> is_space (hd r)" unfolding r_def by (metis hd_dropWhile)
  moreover have "last (trim s) = hd r" using \<open>r \<noteq> []\<close>
    by (simp add: trim_def r_def[symmetric] last_rev)
  ultimately show ?thesis by simp
qed

lemma isPresent_iff: "isPresent s \<longleftrightarrow> (\<exists>c\<in>set s. \<not> is_space c)"
  by (auto simp: isPresent_def search_blank_def list_all_iff)

lemma isPresent_normalise: "isPresent (normalise p) \<longleftrightarrow> normalise p \<noteq> []"
proof
  assume "isPresent (normalise p)"
  then show "normalise p \<noteq> []" by (auto simp: isPresent_def)
next
  assume a: "normalise p \<noteq> []"
  then have "\<not> is_space (last (normalise p))"
    unfolding normalise_def by (rule trim_last)
  moreover from a have "last (normalise p) \<in> set (normalise p)" by simp
  ultimately show "isPresent (normalise p)" unfolding isPresent_iff by blast
qed

lemma pre_loop_filter:
  "pre_loop ns result = result @ filter (\<lambda>p. p \<noteq> []) (map normalise ns)"
  by (induction ns arbitrary: result) (auto simp: Let_def isPresent_normalise)

section \<open>Properties of the Document\<close>

lemma collapse_ws_keeps: "c \<in> set s \<Longrightarrow> \<not> is_space c \<Longrightarrow> c \<in> set (collapse_ws s)"
proof (induction s rule: collapse_ws.induct)
  case 1
  then show ?case by simp
next
  case (2 d ds)
  show ?case
  proof (cases "is_space d")
    case True
    with 2(3,4) have "c \<in> set ds" by auto
    with 2(4) have "c \<in> set (dropWhile is_space ds)"
      by (metis (full_types) UnE set_append set_takeWhileD takeWhile_dropWhile_id)
    with 2(1) True 2(4) show ?thesis by simp
  next
    case False
    with 2 show ?thesis by auto
  qed
qed

lemma dropWhile_keeps: "c \<in> set s \<Longrightarrow> \<not> P c \<Longrightarrow> c \<in> set (dropWhile P s)"
  by (metis UnE set_append set_takeWhileD takeWhile_dropWhile_id)

lemma trim_keeps: "c \<in> set s \<Longrightarrow> \<not> is_space c \<Longrightarrow> c \<in> set (trim s)"
  by (simp add: trim_def dropWhile_keeps)

lemma normalise_keeps: "c \<in> set s \<Longrightarrow> \<not> is_space c \<Longrightarrow> c \<in> set (normalise s)"
  by (simp add: normalise_def trim_keeps collapse_ws_keeps)

lemma split_loop_keeps:
  "c \<in> set cur \<union> set s \<Longrightarrow> c \<noteq> newline \<Longrightarrow> \<exists>p\<in>set (split_loop cur s). c \<in> set p"
proof (induction cur s rule: split_loop.induct)
  case (1 cur)
  then show ?case by simp
next
  case (2 cur d)
  then show ?case by auto
next
  case (3 cur d e cs)
  show ?case
  proof (cases "d = newline \<and> e = newline")
    case True
    show ?thesis
    proof (cases "c \<in> set cur")
      case True
      with \<open>d = newline \<and> e = newline\<close> show ?thesis by simp
    next
      case False
      with 3(3,4) True have "c \<in> set cs" by auto
      with 3(4) have "c \<in> set (dropWhile (\<lambda>x. x = newline) cs)" by (simp add: dropWhile_keeps)
      with 3(1) True 3(4) show ?thesis by auto
    qed
  next
    case False
    with 3(2)[OF False] 3(3,4) show ?thesis by auto
  qed
qed

lemma present_loop_iff:
  "present_loop segs \<longleftrightarrow> (\<exists>t. Span t \<in> set segs \<and> isPresent t)"
  by (induction segs rule: present_loop.induct) auto

lemma present_Pre_toArray: "present_loop segs \<Longrightarrow> Pre_toArray segs \<noteq> []"
proof -
  assume "present_loop segs"
  then obtain t c where t: "Span t \<in> set segs" "c \<in> set t" "\<not> is_space c"
    unfolding present_loop_iff isPresent_iff by blast
  then have "c \<in> set (join_segments segs)"
    by (force simp: join_segments_def)
  moreover from t(3) have "c \<noteq> newline" by (auto simp: is_space_def)
  ultimately obtain p where p: "p \<in> set (split_newlines (join_segments segs))" "c \<in> set p"
    unfolding split_newlines_def using split_loop_keeps[of c "[]"] by auto
  with t(3) have "c \<in> set (normalise p)" by (simp add: normalise_keeps)
  then have "normalise p \<noteq> []" by auto
  with p(1) have "filter (\<lambda>p. p \<noteq> []) (map normalise (split_newlines (join_segments segs))) \<noteq> []"
    by (auto simp: filter_empty_conv)
  then show ?thesis by (simp add: Pre_toArray_def Let_def pre_loop_filter)
qed

lemma present_toArray: "present_loop segs \<Longrightarrow> toArray b segs \<noteq> []"
  by (cases b)
    (simp_all add: present_Pre_toArray Paragraph_toArray_def Heading_toArray_def
      ListItem_toArray_def DefinitionTerm_toArray_def DefinitionDescription_toArray_def)

lemma finish_absent: "\<not> Document_isPresent d \<Longrightarrow> finish inBq d = Inr d"
  by (simp add: finish_def)

lemma finish_present:
  assumes "Document_isPresent d" and "args d = Some b"
  shows "finish inBq d =
     Inr (d\<lparr>content := content d @ (if inBq then ''> '' else []) @ render (toArray b (segments d)),
            args := None\<rparr>)"
proof -
  from assms(1) have "toArray b (segments d) \<noteq> []"
    by (simp add: Document_isPresent_def present_toArray)
  then have "stringify (toArray b (segments d)) = Inr (render (toArray b (segments d)))"
    by (rule stringify_render)
  then show ?thesis using assms
    by (simp add: finish_def blockContent_def Let_def)
qed

section \<open>Properties of the traversal\<close>

lemma and_then_Inr [simp]: "and_then (Inr x) f = f x"
  by (simp add: and_then_def)

lemma and_then_Inl [simp]: "and_then (Inl e) f = Inl e"
  by (simp add: and_then_def)



lemma process_deferred_newline:
  assumes "proceeds E pos node" "toLowerCase (nodeName node) \<noteq> ''br''" "justAppendedBr s"
  shows "process E pos node s =
     process E pos node (document_push (Str [newline]) (s\<lparr>justAppendedBr := False\<rparr>))"
  using assms unfolding proceeds_def
  by (subst process.simps, subst process.simps) (simp add: Let_def document_push_def)


lemma previousElementSibling_None:
  "previousElementSibling bef = None \<Longrightarrow> filter is_element bef = []"
proof -
  assume "previousElementSibling bef = None"
  then have "dropWhile (\<lambda>n. nodeType n \<noteq> 1) (rev bef) = []"
    by (simp add: previousElementSibling_def split: list.splits)
  then have "\<forall>n\<in>set bef. nodeType n \<noteq> 1" by (simp add: dropWhile_eq_Nil_conv)
  then show ?thesis by (simp add: filter_empty_conv is_element_def)
qed

lemma previousElementSibling_Some:
  assumes "previousElementSibling bef = Some earlier"
  shows "length (filter is_element bef) = Suc (length (filter is_element earlier))"
proof -
  define P where "P = (\<lambda>n. nodeType n \<noteq> 1)"
  from assms obtain sibling where d: "dropWhile P (rev bef) = sibling # rev earlier"
    by (auto simp: previousElementSibling_def P_def split: list.splits)
  then have e: "\<not> P sibling" by (metis hd_dropWhile list.sel(1) list.distinct(1))
  have "rev bef = takeWhile P (rev bef) @ sibling # rev earlier"
    using d by (metis takeWhile_dropWhile_id)
  then have "bef = earlier @ sibling # rev (takeWhile P (rev bef))"
    by (metis rev_append rev_rev_ident rev.simps(2) append_Cons append_Nil append_assoc)
  moreover have "filter is_element (rev (takeWhile P (rev bef))) = []"
    by (auto simp: filter_empty_conv is_element_def P_def dest: set_takeWhileD)
  ultimately have "filter is_element bef = filter is_element earlier @ [sibling]"
    using e by (metis (no_types, lifting) P_def append_Nil2 filter.simps(2) filter_append is_element_def)
  then show ?thesis by simp
qed

lemma index_loop_count: "index_loop bef index = index + length (filter is_element bef)"
proof (induction bef index rule: index_loop.induct)
  case (1 bef index)
  show ?case
  proof (cases "previousElementSibling bef")
    case None
    then show ?thesis
      by (subst index_loop.simps) (simp add: previousElementSibling_None)
  next
    case (Some earlier)
    with 1 have "index_loop earlier (index + 1) = index + 1 + length (filter is_element earlier)"
      by simp
    with Some show ?thesis
      by (subst index_loop.simps) (simp add: previousElementSibling_Some)
  qed
qed

lemma li_index_ol:
  "parentName pos = Some parent \<Longrightarrow> toLowerCase parent = ''ol'' \<Longrightarrow>
   li_index pos = Inr (Some (1 + length (filter is_element (before pos))))"
  by (simp add: li_index_def index_loop_count)

lemma process_li:
  assumes "proceeds E pos node" "toLowerCase (nodeName node) = ''li''" "nodeType node = 1"
  shows "process E pos node s =
     and_then (li_index pos) (\<lambda>index.
       and_then (document_break (ListItem (nextElementSibling (after pos) = None) index)
                   (deferred_newline s))
         (\<lambda>s1. processFlowContent E node s1))"
  using assms unfolding proceeds_def
  by (subst process.simps) (simp add: Let_def ENHANCERS_def deferred_newline_def)

lemma process_a_links:
  assumes "proceeds E pos node" "toLowerCase (nodeName node) = ''a''" "nodeType node = 1"
    "text_isPresent E node = Inr True" "querySelectorAll_BREAK_TAGS node = []"
    "links (options E)"
  shows "process E pos node s =
     and_then (processChildren E node (document_push (Span ''['') (deferred_newline s)))
       (\<lambda>s'. Inr (document_push (Span ('']('' @ href (props_of node) @ '')'')) s'))"
  using assms unfolding proceeds_def
  by (subst process.simps) (simp add: Let_def ENHANCERS_def deferred_newline_def new_Span_def)

lemma process_a_no_links:
  assumes "proceeds E pos node" "toLowerCase (nodeName node) = ''a''" "nodeType node = 1"
    "\<not> links (options E)"
  shows "process E pos node s = processChildren E node (deferred_newline s)"
  using assms unfolding proceeds_def
  by (subst process.simps)
    (simp add: Let_def ENHANCERS_def deferred_newline_def BLOCK_INITIATING_TAGS_def HEADING_TAGS_def)


lemma render_ListItem:
  "stringify (toArray (ListItem isLast index) segs) =
     Inr (ListItem_prefix index @ render segs @ [newline] @ (if isLast then [newline] else []))"
proof -
  have "toArray (ListItem isLast index) segs \<noteq> []" by (simp add: ListItem_toArray_def)
  then have "stringify (toArray (ListItem isLast index) segs) =
      Inr (render (toArray (ListItem isLast index) segs))"
    by (rule stringify_render)
  also have "render (toArray (ListItem isLast index) segs) =
      ListItem_prefix index @ render segs @ [newline] @ (if isLast then [newline] else [])"
    using render_snoc_Str[of segs] by (simp add: ListItem_toArray_def)
  finally show ?thesis .
qed



lemma present_loop_filter: "present_loop (filter is_Span segs) = present_loop segs"
  by (induction segs rule: present_loop.induct) auto

lemma present_loop_bare: "\<forall>seg\<in>set segs. \<not> is_Span seg \<Longrightarrow> \<not> present_loop segs"
  by (induction segs rule: present_loop.induct) auto

lemma toLowerCase_text: "toLowerCase ''#text'' = ''#text''"
  by code_simp

lemma hidden_Text: "hidden E (Text d) = Inr False"
  by (simp add: hidden_def isElementVisible_def)

lemma default_options_excluded:
  "options E = assign_options no_options \<Longrightarrow> excluded E pos node = Inr False"
  by (simp add: excluded_def assign_options_def no_options_def)

lemma default_options_hidden:
  "options E = assign_options no_options \<Longrightarrow> isElementVisible E node = Inr True \<Longrightarrow>
   hidden E node = Inr False"
  by (simp add: hidden_def assign_options_def no_options_def)

lemma pending_push: "pending (document_push seg s) = pending s"
  by (simp add: pending_def document_push_def push_def)

lemma pending_break: "document_break b s = Inr s' \<Longrightarrow> pending s'"
  by (auto simp: pending_def document_break_def break_def start_def and_then_def split: sum.splits)

lemma pending_flags [simp]:
  "pending (s\<lparr>justAppendedBr := a\<rparr>) = pending s"
  "pending (s\<lparr>inBlockquote := a\<rparr>) = pending s"
  "pending (s\<lparr>groupWithNext := a\<rparr>) = pending s"
  by (simp_all add: pending_def)

lemma and_then_InrE:
  "and_then r f = Inr y \<Longrightarrow> (\<And>x. r = Inr x \<Longrightarrow> f x = Inr y \<Longrightarrow> P) \<Longrightarrow> P"
  by (cases r) auto





lemma children_loop_pending:
  assumes "\<And>c E pos s s'. c \<in> set rest \<Longrightarrow> process E pos c s = Inr s' \<Longrightarrow> pending s \<Longrightarrow> pending s'"
  shows "children_loop E parent bef rest s = Inr s' \<Longrightarrow> pending s \<Longrightarrow> pending s'"
  using assms
proof (induction rest arbitrary: bef s)
  case Nil
  then show ?case by simp
next
  case (Cons c rest)
  from Cons.prems(1) obtain s1 where
    1: "process E \<lparr>parentName = Some parent, before = bef, after = rest\<rparr> c s = Inr s1"
    and 2: "children_loop E parent (bef @ [c]) rest s1 = Inr s'"
    by (auto elim: and_then_InrE)
  from Cons.prems(3)[OF _ 1 Cons.prems(2)] have p1: "pending s1" by simp
  have "\<And>c' E pos s s'. c' \<in> set rest \<Longrightarrow> process E pos c' s = Inr s' \<Longrightarrow> pending s \<Longrightarrow> pending s'"
    using Cons.prems(3) by (meson list.set_intros(2))
  from Cons.IH[OF 2 p1 this] show ?case .
qed

lemma process_pending_step:
  assumes R: "\<And>x y. processChildren E node x = Inr y \<Longrightarrow> pending x \<Longrightarrow> pending y"
  shows "process E pos node s = Inr s' \<Longrightarrow> pending s \<Longrightarrow> pending s'"
proof -
  have Q: "\<And>x y. processFlowContent E node x = Inr y \<Longrightarrow> pending y"
    by (auto elim!: and_then_InrE dest: pending_break simp del: processChildren.simps)
  assume "process E pos node s = Inr s'" "pending s"
  then show "pending s'"
    apply (subst (asm) process.simps)
    apply (auto simp: Let_def pending_push split: if_splits option.splits enhancer.splits
        elim!: and_then_InrE
        simp del: processChildren.simps processFlowContent.simps)
    apply (auto dest!: pending_break Q dest: R simp: pending_push
        simp del: processChildren.simps processFlowContent.simps)
    done
qed


lemma process_pending:
  "process E pos node s = Inr s' \<Longrightarrow> pending s \<Longrightarrow> pending s'"
proof (induction node arbitrary: E pos s s')
  case (Element name attributes p children)
  have "\<And>x y. processChildren E (Element name attributes p children) x = Inr y \<Longrightarrow>
      pending x \<Longrightarrow> pending y"
    using children_loop_pending[of children] Element.IH by auto
  then show ?case using Element.prems by (rule process_pending_step)
next
  case (Text d)
  then show ?case by (rule process_pending_step[rotated]) auto
next
  case (Comment d)
  then show ?case by (rule process_pending_step[rotated]) auto
qed

lemma children_loop_places:
  "children_loop E parent bef rest s = process_each E (places parent bef rest) s"
proof (induction rest arbitrary: bef s)
  case Nil
  show ?case by simp
next
  case (Cons child rest)
  show ?case
    by (cases "process E \<lparr>parentName = Some parent, before = bef, after = rest\<rparr> child s")
      (simp_all add: Cons.IH)
qed

lemma places_nth:
  "i < length cs \<Longrightarrow>
   places parent bef cs ! i =
     (\<lparr>parentName = Some parent, before = bef @ take i cs, after = drop (Suc i) cs\<rparr>, cs ! i)"
proof (induction cs arbitrary: bef i)
  case Nil
  then show ?case by simp
next
  case (Cons c cs)
  show ?case
  proof (cases i)
    case 0
    then show ?thesis by simp
  next
    case (Suc j)
    with Cons.prems have "j < length cs" by simp
    from Cons.IH[OF this, of "bef @ [c]"] Suc show ?thesis by simp
  qed
qed

lemma length_places: "length (places parent bef cs) = length cs"
  by (induction cs arbitrary: bef) auto

lemma ordinal_in_order:
  assumes "toLowerCase list = ''ol''" "i < length items" "\<forall>n\<in>set items. is_element n"
  shows "li_index (fst (places list [] items ! i)) = Inr (Some (i + 1))"
proof -
  have "filter is_element (take i items) = take i items"
    using assms(3) by (auto simp: filter_id_conv dest: in_set_takeD)
  then show ?thesis
    using assms(1,2) by (simp add: places_nth li_index_ol)
qed

section \<open>The claims\<close>

text \<open>
  Claim C1, with the output string put right. With the default options, and the three
  elements visible, the
  accumulated output for the list \<open><ul><li>a</li><li>b</li></ul>\<close> is
  \<open>"* a\n* b\n\n"\<close>, whatever the attributes and properties of the elements and the
  place of the list: a list item renders as its prefix, its children and a newline,
  and only the last item (the one with no following sibling element) gets the extra
  blank line.
\<close>

theorem ul_output:
  assumes "options E = assign_options no_options"
    and "toLowerCase ul = ''ul''" and "toLowerCase li1 = ''li''" and "toLowerCase li2 = ''li''"
    and "nodes E =
      [(pos, Element ul a1 p1 [Element li1 a2 p2 [Text ''a''], Element li2 a3 p3 [Text ''b'']])]"
    and "isElementVisible E
      (Element ul a1 p1 [Element li1 a2 p2 [Text ''a''], Element li2 a3 p3 [Text ''b'']]) = Inr True"
    and "isElementVisible E (Element li1 a2 p2 [Text ''a'']) = Inr True"
    and "isElementVisible E (Element li2 a3 p3 [Text ''b'']) = Inr True"
  shows "accumulated E = Inr ''* a\<newline>* b\<newline>\<newline>''
   \<and> stringify (toArray (ListItem isLast None) segs) =
       Inr (''* '' @ render segs @ [newline] @ (if isLast then [newline] else []))"
proof
  note o = assms(1)
  note h = default_options_hidden[OF o assms(6)] default_options_hidden[OF o assms(7)]
    default_options_hidden[OF o assms(8)]
  have e: "escape ''a'' = ''a''" "escape ''b'' = ''b''" by code_simp+
  have p: "isPresent ''a''" "isPresent ''b''" by code_simp+
  have s: "stringify (ListItem_toArray [Span ''a''] False None) = Inr ''* a\<newline>''"
    "stringify (ListItem_toArray [Span ''b''] True None) = Inr ''* b\<newline>\<newline>''"
    by code_simp+
  show "accumulated E = Inr ''* a\<newline>* b\<newline>\<newline>''"
    unfolding accumulated_def assms(5)
    by (simp add: process.simps assms(2,3,4) toLowerCase_text default_options_excluded[OF o] h
        hidden_Text SKIP_TAGS_def ENHANCERS_def BLOCK_INITIATING_TAGS_def o assign_options_def
        no_options_def initial_state_def new_Document_def start_def document_break_def break_def
        finish_def Document_isPresent_def document_push_def push_def li_index_def
        nextElementSibling_def new_Span_def blockContent_def getContent_def Let_def e p s)
  show "stringify (toArray (ListItem isLast None) segs) =
       Inr (''* '' @ render segs @ [newline] @ (if isLast then [newline] else []))"
    using render_ListItem[of isLast None segs] by (simp add: ListItem_prefix_def)
qed

text \<open>The list in a document without layout, where every element counts as visible.\<close>

theorem ul_output_witness:
  "accumulated (new_Extractor never_matches
      (Single (NodeItem plain_document body_position ul_example)) no_options)
    = Inr ''* a\<newline>* b\<newline>\<newline>''"
proof -
  let ?E = "new_Extractor never_matches
      (Single (NodeItem plain_document body_position ul_example)) no_options"
  have o: "options ?E = assign_options no_options"
    by (simp add: new_Extractor_def Let_def)
  have n: "nodes ?E = [(body_position,
      Element ''UL'' [] no_props [Element ''LI'' [] no_props [Text ''a''],
        Element ''LI'' [] no_props [Text ''b'']])]"
    by (simp add: new_Extractor_def Let_def ul_example_def element_def)
  have r: "isDomReal ?E = False"
    by (simp add: new_Extractor_def Let_def plain_document_def)
  have v: "isElementVisible ?E x = Inr True" for x
    by (simp add: isElementVisible_def r)
  have l: "toLowerCase ''UL'' = ''ul''" "toLowerCase ''LI'' = ''li''" by code_simp+
  from ul_output[OF o l(1) l(2) l(2) n v v v] show ?thesis by simp
qed

text \<open>
  The string that the specification gives for this list, \<open>"* a\n\n* b\n\n"\<close>, has
  a blank line after the first item too; it is not the accumulated output.
\<close>

theorem ul_output_counterexample:
  "accumulated (new_Extractor never_matches (Single (NodeItem plain_document body_position ul_example))
      no_options) \<noteq> Inr ''* a\<newline>\<newline>* b\<newline>\<newline>''"
  by code_simp

text \<open>
  Claim C2. For every string, \<open>escape\<close> puts exactly one backslash in front of each
  occurrence of the characters \<open>* < [ \ _ ` ~\<close>, wherever it stands, puts at most one
  in front of a block-start character, an ampersand or a full stop, and changes
  nothing else. So a string without those other characters comes out with one backslash
  in front of each always-escaped character and is otherwise unchanged.
\<close>

theorem escape_backslash_each:
  "escaped_from always_chars conditional_chars text (escape text) \<and>
   (set text \<inter> set conditional_chars = {} \<longrightarrow>
      escape text = concat (map (\<lambda>c. if c \<in> set always_chars then [backslash, c] else [c]) text))"
  using escaped_from_escape[of "text"] escaped_from_must_only by blast

theorem escape_backslash_each_witness:
  "set ''a*b_c~d`e<f[g'' \<inter> set conditional_chars = {} \<and>
   escape ''a*b_c~d`e<f[g'' =
     [CHR ''a'', backslash, CHR ''*'', CHR ''b'', backslash, CHR ''_'', CHR ''c'', backslash, CHR ''~'',
      CHR ''d'', backslash, CHR ''`'', CHR ''e'', backslash, CHR ''<'', CHR ''f'', backslash, CHR ''['', CHR ''g'']"
  using escape_backslash_each[of "''a*b_c~d`e<f[g''"]
  by (simp add: conditional_chars_def block_start_chars_def always_chars_def)



text \<open>
  Claim C4. A list item whose parent is an ordered list gets the ordinal one plus the
  number of the sibling elements before it. The ordinal is that count whatever the
  attributes of the item, of its siblings and of the list are: no start index of the
  markup is read. The children of a node are processed in document order, each at the
  place whose earlier siblings are the children before it; so the items of an ordered
  list whose children are all elements are numbered 1, 2, ... in document order.
\<close>

theorem ordered_list_ordinals:
  assumes not_skipped: "proceeds E pos (Element name attributes p children)"
    and item: "toLowerCase name = ''li''"
    and parent: "parentName pos = Some parent"
    and ordered: "toLowerCase parent = ''ol''"
  shows "li_index pos = Inr (Some (1 + length (filter is_element (before pos))))
   \<and> process E pos (Element name attributes p children) s =
       and_then
         (document_break
            (ListItem (nextElementSibling (after pos) = None)
               (Some (1 + length (filter is_element (before pos)))))
            (deferred_newline s))
         (\<lambda>s1. processFlowContent E (Element name attributes p children) s1)
   \<and> ListItem_prefix (Some (1 + length (filter is_element (before pos))))
       = decimal (1 + length (filter is_element (before pos))) @ ''. ''
   \<and> processChildren E (Element list list_attributes list_props items) s
       = process_each E (places list [] items) s
   \<and> (i < length items \<longrightarrow>
        places list [] items ! i =
          (\<lparr>parentName = Some list, before = take i items, after = drop (Suc i) items\<rparr>,
           items ! i))
   \<and> (toLowerCase list = ''ol'' \<and> i < length items \<and> (\<forall>n\<in>set items. is_element n) \<longrightarrow>
        li_index (fst (places list [] items ! i)) = Inr (Some (i + 1)))"
proof -
  have each: "processChildren E (Element list list_attributes list_props items) s
       = process_each E (places list [] items) s"
    by (simp add: children_loop_places)
  have place: "i < length items \<longrightarrow>
        places list [] items ! i =
          (\<lparr>parentName = Some list, before = take i items, after = drop (Suc i) items\<rparr>,
           items ! i)"
    by (simp add: places_nth)
  have in_order: "toLowerCase list = ''ol'' \<and> i < length items \<and> (\<forall>n\<in>set items. is_element n) \<longrightarrow>
        li_index (fst (places list [] items ! i)) = Inr (Some (i + 1))"
    by (simp add: ordinal_in_order)
  let ?node = "Element name attributes p children"
  let ?ordinal = "1 + length (filter is_element (before pos))"
  have "index_loop (before pos) 1 = ?ordinal"
    by (rule index_loop_count)
  with parent ordered have index: "li_index pos = Inr (Some ?ordinal)"
    by (simp add: li_index_def)
  have "process E pos ?node s =
      and_then (li_index pos) (\<lambda>index.
        and_then (document_break (ListItem (nextElementSibling (after pos) = None) index)
                    (deferred_newline s))
          (\<lambda>s1. processFlowContent E ?node s1))"
    using not_skipped item by (intro process_li) simp_all
  then have step: "process E pos ?node s =
      and_then (document_break (ListItem (nextElementSibling (after pos) = None) (Some ?ordinal))
                  (deferred_newline s))
        (\<lambda>s1. processFlowContent E ?node s1)"
    unfolding index by simp
  have prefix: "ListItem_prefix (Some ?ordinal) = decimal ?ordinal @ ''. ''"
    by (simp add: ListItem_prefix_def)
  from index step prefix each place in_order show ?thesis by blast
qed

text \<open>
  The second item of \<open><ol start="5"><li value="7">x</li> <li>y</li></ol>\<close> is
  numbered 2, and the list comes out as \<open>1. x\<close> and \<open>2. y\<close>.
\<close>

theorem ordered_list_ordinals_witness:
  "proceeds (plain_extractor no_options)
     \<lparr>parentName = Some ''OL'', before = [element ''LI'' [Text ''x''], Text '' ''], after = []\<rparr>
     (Element ''LI'' [(''value'', ''7'')] no_props [Text ''y''])
   \<and> li_index \<lparr>parentName = Some ''OL'', before = [element ''LI'' [Text ''x''], Text '' ''], after = []\<rparr>
       = Inr (Some 2)
   \<and> ListItem_prefix (Some 2) = ''2. ''
   \<and> li_index (fst (places ''OL'' [] [element ''LI'' [Text ''x''], element ''LI'' [Text ''y'']] ! 1))
       = Inr (Some 2)
   \<and> convert ol_example no_options = Inr ''1. x\<newline>2. y''"
proof -
  let ?pos = "\<lparr>parentName = Some ''OL'', before = [element ''LI'' [Text ''x''], Text '' ''], after = []\<rparr>"
  have p: "proceeds (plain_extractor no_options) ?pos (Element ''LI'' [(''value'', ''7'')] no_props [Text ''y''])"
    by code_simp
  have l: "toLowerCase ''LI'' = ''li''" by code_simp
  have o: "toLowerCase ''OL'' = ''ol''" by code_simp
  have c: "1 + length (filter is_element (before ?pos)) = 2" by code_simp
  have "li_index ?pos = Inr (Some (1 + length (filter is_element (before ?pos))))"
    using ordered_list_ordinals[OF p l _ o, where s = initial_state] by simp
  then have "li_index ?pos = Inr (Some 2)" unfolding c .
  moreover have "ListItem_prefix (Some 2) = ''2. ''" by code_simp
  moreover have "li_index
      (fst (places ''OL'' [] [element ''LI'' [Text ''x''], element ''LI'' [Text ''y'']] ! 1))
       = Inr (Some 2)"
    by code_simp
  moreover have "convert ol_example no_options = Inr ''1. x\<newline>2. y''" by code_simp
  ultimately show ?thesis using p by simp
qed

text \<open>
  Claim C5. \<open>finish\<close> leaves the document as it is, the output buffer with it, when
  every span of the open buffer is blank (empty or white space only); so a block of
  blank spans adds nothing to the output. When some span is not blank and a block is
  pending, rendering the block does not fail, and \<open>finish\<close> appends the rendered
  block to the output, after the prefix \<open>"> "\<close> exactly when the traversal is inside a
  blockquote. In the traversal a block is pending from the first break on: a break
  leaves its block pending, and \<open>process\<close> keeps a block pending.
\<close>

theorem finish_frame:
  "((\<forall>t. Span t \<in> set (segments d) \<longrightarrow> list_all is_space t) \<longrightarrow> finish inBq d = Inr d)
   \<and> ((\<exists>t. Span t \<in> set (segments d) \<and> \<not> list_all is_space t) \<and> args d = Some blockType \<longrightarrow>
        (\<exists>text d'. stringify (toArray blockType (segments d)) = Inr text
           \<and> finish inBq d = Inr d'
           \<and> content d' = content d @ (if inBq then ''> '' else []) @ text
           \<and> segments d' = segments d))
   \<and> (document_break b s = Inr s1 \<longrightarrow> args (document s1) = Some b)
   \<and> (process E pos node s = Inr s2 \<and> args (document s) \<noteq> None \<longrightarrow>
        args (document s2) \<noteq> None)"
proof (intro conjI impI)
  assume "\<forall>t. Span t \<in> set (segments d) \<longrightarrow> list_all is_space t"
  then have "\<not> Document_isPresent d"
    unfolding Document_isPresent_def present_loop_iff isPresent_iff list_all_iff by blast
  then show "finish inBq d = Inr d" by (rule finish_absent)
next
  assume a: "(\<exists>t. Span t \<in> set (segments d) \<and> \<not> list_all is_space t) \<and> args d = Some blockType"
  then have p: "Document_isPresent d"
    unfolding Document_isPresent_def present_loop_iff isPresent_iff list_all_iff by blast
  then have "toArray blockType (segments d) \<noteq> []"
    by (simp add: Document_isPresent_def present_toArray)
  then have "stringify (toArray blockType (segments d))
      = Inr (render (toArray blockType (segments d)))"
    by (rule stringify_render)
  moreover from a p have "finish inBq d =
     Inr (d\<lparr>content := content d @ (if inBq then ''> '' else [])
                @ render (toArray blockType (segments d)),
            args := None\<rparr>)"
    by (simp add: finish_present)
  ultimately show "\<exists>text d'. stringify (toArray blockType (segments d)) = Inr text
           \<and> finish inBq d = Inr d'
           \<and> content d' = content d @ (if inBq then ''> '' else []) @ text
           \<and> segments d' = segments d"
    by simp
next
  assume "document_break b s = Inr s1"
  then show "args (document s1) = Some b"
    by (auto simp: document_break_def break_def start_def elim!: and_then_InrE split: sum.splits)
next
  assume "process E pos node s = Inr s2 \<and> args (document s) \<noteq> None"
  then show "args (document s2) \<noteq> None"
    using process_pending[of E pos node s s2] by (simp add: pending_def)
qed

text \<open>
  A paragraph of one blank span, which \<open>finish\<close> leaves alone, a paragraph with the
  span \<open>a\<close> inside a blockquote, which goes out as \<open>> a\<close> and a blank line, and the
  element \<open><p>a</p>\<close>, which \<open>process\<close> leaves with a paragraph pending.
\<close>

theorem finish_frame_witness:
  "finish True \<lparr>content = ''x'', segments = [Span ''  ''], args = Some Paragraph\<rparr>
     = Inr \<lparr>content = ''x'', segments = [Span ''  ''], args = Some Paragraph\<rparr>
   \<and> stringify (toArray Paragraph [Span ''  '', Span ''a'']) = Inr ''a\<newline>\<newline>''
   \<and> (\<exists>d'. finish True \<lparr>content = ''x'', segments = [Span ''  '', Span ''a''], args = Some Paragraph\<rparr>
          = Inr d' \<and> content d' = ''x> a\<newline>\<newline>'')
   \<and> process (plain_extractor no_options) body_position (element ''P'' [Text ''a''])
        (initial_state\<lparr>document := start (Some Paragraph) new_Document\<rparr>)
       = Inr (initial_state\<lparr>document :=
                \<lparr>content = ''a\<newline>\<newline>'', segments = [], args = Some Paragraph\<rparr>\<rparr>)"
proof -
  let ?d1 = "\<lparr>content = ''x'', segments = [Span ''  ''], args = Some Paragraph\<rparr>"
  let ?d2 = "\<lparr>content = ''x'', segments = [Span ''  '', Span ''a''], args = Some Paragraph\<rparr>"
  let ?E = "plain_extractor no_options"
  let ?s = "initial_state\<lparr>document := start (Some Paragraph) new_Document\<rparr>"
  let ?s2 = "initial_state\<lparr>document :=
                \<lparr>content = ''a\<newline>\<newline>'', segments = [], args = Some Paragraph\<rparr>\<rparr>"
  have 4: "process ?E body_position (element ''P'' [Text ''a'']) ?s = Inr ?s2"
    by code_simp
  note th1 = finish_frame[of ?d1 True Paragraph Paragraph ?s ?s2 ?E body_position
      "element ''P'' [Text ''a'']" ?s2]
  note th2 = finish_frame[of ?d2 True Paragraph Paragraph ?s ?s2 ?E body_position
      "element ''P'' [Text ''a'']" ?s2]
  have b: "list_all is_space ''  ''" by code_simp
  have n: "\<not> list_all is_space ''a''" by code_simp
  have 1: "finish True ?d1 = Inr ?d1"
    using th1 b by simp
  have 2: "stringify (toArray Paragraph [Span ''  '', Span ''a'']) = Inr ''a\<newline>\<newline>''"
    by code_simp
  have "\<exists>t. Span t \<in> set (segments ?d2) \<and> \<not> list_all is_space t"
    using n by (intro exI[of _ "''a''"]) simp
  with th2 2
  have 3: "\<exists>d'. finish True ?d2 = Inr d' \<and> content d' = ''x> a\<newline>\<newline>''"
    by auto
  from 1 2 3 4 show ?thesis by blast
qed

text \<open>
  Claim C6. A preformatted block renders as the specification says: the text of its
  children is concatenated and split on runs of two or more newlines, each paragraph is
  normalised, the empty ones are dropped, the others are joined with one blank line and
  end with a blank line. When every paragraph normalises to the empty string the block
  renders as nothing: \<open>toArray\<close> gives the empty array, and a document whose open
  block it is adds nothing to its output.
\<close>

theorem Pre_toArray_spec:
  "Pre_toArray children = Pre_spec children \<and>
   (Pre_toArray children \<noteq> [] \<longrightarrow>
      stringify (Pre_toArray children) =
        Inr (join blank_line
               (filter (\<lambda>p. p \<noteq> []) (map normalise (split_newlines (join_segments children))))
             @ blank_line)) \<and>
   ((\<forall>p\<in>set (split_newlines (join_segments children)). normalise p = []) \<longrightarrow>
      Pre_toArray children = []
      \<and> finish inBq \<lparr>content = out, segments = children, args = Some Pre\<rparr>
          = Inr \<lparr>content = out, segments = children, args = Some Pre\<rparr>)"
proof (intro conjI impI)
  show "Pre_toArray children = Pre_spec children"
    by (simp add: Pre_toArray_def Pre_spec_def Let_def pre_loop_filter join_segments_def
        blank_line_def)
next
  assume a: "Pre_toArray children \<noteq> []"
  then have "stringify (Pre_toArray children) = Inr (render (Pre_toArray children))"
    by (rule stringify_render)
  then show "stringify (Pre_toArray children) =
        Inr (join blank_line
               (filter (\<lambda>p. p \<noteq> []) (map normalise (split_newlines (join_segments children))))
             @ blank_line)"
    using a by (simp add: Pre_toArray_def Let_def pre_loop_filter blank_line_def split: if_splits)
next
  assume "\<forall>p\<in>set (split_newlines (join_segments children)). normalise p = []"
  then show e: "Pre_toArray children = []"
    by (auto simp: Pre_toArray_def Let_def pre_loop_filter filter_empty_conv)
  then have "\<not> present_loop children" using present_Pre_toArray by blast
  then show "finish inBq \<lparr>content = out, segments = children, args = Some Pre\<rparr>
          = Inr \<lparr>content = out, segments = children, args = Some Pre\<rparr>"
    by (simp add: finish_absent Document_isPresent_def)
qed

text \<open>Three white-space pieces around a run of three newlines: nothing is rendered.\<close>

theorem Pre_toArray_spec_witness:
  "map normalise
     (split_newlines (join_segments [Span ''  '', Str [newline, newline, newline], Span '' '']))
     = [[], []]
   \<and> Pre_toArray [Span ''  '', Str [newline, newline, newline], Span '' ''] = []
   \<and> finish False
        \<lparr>content = ''x'', segments = [Span ''  '', Str [newline, newline, newline], Span '' ''],
         args = Some Pre\<rparr>
       = Inr \<lparr>content = ''x'', segments = [Span ''  '', Str [newline, newline, newline], Span '' ''],
              args = Some Pre\<rparr>
   \<and> stringify (Pre_toArray [Span ''a   b\<newline>c\<newline>\<newline>\<newline>  \<newline>\<newline> d  e '']) =
       Inr ''a b c\<newline>\<newline>d e\<newline>\<newline>''"
proof -
  have m: "map normalise
     (split_newlines (join_segments [Span ''  '', Str [newline, newline, newline], Span '' '']))
     = [[], []]"
    by code_simp
  then have "\<forall>p\<in>set (split_newlines
       (join_segments [Span ''  '', Str [newline, newline, newline], Span '' ''])).
      normalise p = []"
    by (metis (no_types, lifting) imageI image_set insert_iff list.simps(15) empty_iff empty_set)
  moreover have "stringify (Pre_toArray [Span ''a   b\<newline>c\<newline>\<newline>\<newline>  \<newline>\<newline> d  e '']) =
       Inr ''a b c\<newline>\<newline>d e\<newline>\<newline>''"
    using Pre_toArray_spec[of "[Span ''a   b\<newline>c\<newline>\<newline>\<newline>  \<newline>\<newline> d  e '']" False "[]"]
    by code_simp
  ultimately show ?thesis
    using m Pre_toArray_spec[of "[Span ''  '', Str [newline, newline, newline], Span '' '']"
        False "''x''"]
    by blast
qed

text \<open>
  Claim C7. For every string \<open>T\<close>, normalising twice gives what normalising once
  gives, and the normalised string has no run of two or more white-space characters.
\<close>

theorem normalise_idempotent_no_runs:
  "normalise (normalise T) = normalise T \<and> \<not> has_ws_run (normalise T)"
proof -
  have t: "tidy (normalise T)"
    unfolding normalise_def by (rule tidy_trim) (rule tidy_collapse_ws)
  then have "collapse_ws (normalise T) = normalise T" by (rule collapse_ws_tidy)
  then have "normalise (normalise T) = trim (normalise T)" by (simp add: normalise_def)
  also have "\<dots> = normalise T" by (simp add: normalise_def trim_idem)
  finally show ?thesis using t by (simp add: tidy_no_run)
qed

text \<open>
  Claim C8, with its example put right. An anchor that is not skipped, has text that is
  not blank and has no block or heading element below it: with links enabled
  \<open>process\<close> pushes the raw span \<open>[\<close>, processes the children and pushes the raw span
  \<open>](href)\<close>, where \<open>href\<close> is the property of the node; with links disabled it only
  processes the children. So \<open><a href="http://e.com">t</a>\<close>, whose property \<open>href\<close> is
  \<open>http://e.com/\<close>, gives \<open>[t](http://e.com/)\<close> with the default options and \<open>t\<close>
  with links disabled.
\<close>

theorem anchor_rendering:
  assumes not_skipped: "proceeds E pos (Element name attributes p children)"
    and anchor: "toLowerCase name = ''a''"
    and text_present: "text_isPresent E (Element name attributes p children) = Inr True"
    and no_blocks: "querySelectorAll_BREAK_TAGS (Element name attributes p children) = []"
  shows "(links (options E) \<longrightarrow>
      process E pos (Element name attributes p children) s =
        and_then
          (processChildren E (Element name attributes p children)
             (document_push (Span ''['') (deferred_newline s)))
          (\<lambda>s'. Inr (document_push (Span ('']('' @ href p @ '')'')) s')))
   \<and> (\<not> links (options E) \<longrightarrow>
      process E pos (Element name attributes p children) s =
        processChildren E (Element name attributes p children) (deferred_newline s))
   \<and> convert anchor_example no_options = Inr ''[t](http://e.com/)''
   \<and> convert anchor_example (no_options\<lparr>opt_links := Some False\<rparr>) = Inr ''t''"
proof (intro conjI impI)
  show "convert anchor_example no_options = Inr ''[t](http://e.com/)''"
    by code_simp
  show "convert anchor_example (no_options\<lparr>opt_links := Some False\<rparr>) = Inr ''t''"
    by code_simp
  let ?node = "Element name attributes p children"
  have name: "toLowerCase (nodeName ?node) = ''a''" and element: "nodeType ?node = 1"
    using anchor by simp_all
  { assume "links (options E)"
    with not_skipped name element text_present no_blocks
    have "process E pos ?node s =
        and_then (processChildren E ?node (document_push (Span ''['') (deferred_newline s)))
          (\<lambda>s'. Inr (document_push (Span ('']('' @ href (props_of ?node) @ '')'')) s'))"
      by (rule process_a_links)
    then show "process E pos ?node s =
        and_then (processChildren E ?node (document_push (Span ''['') (deferred_newline s)))
          (\<lambda>s'. Inr (document_push (Span ('']('' @ href p @ '')'')) s'))"
      by simp }
  { assume "\<not> links (options E)"
    with not_skipped name element
    show "process E pos ?node s = processChildren E ?node (deferred_newline s)"
      by (rule process_a_no_links) }
qed

text \<open>The anchor \<open><a href="http://e.com">t</a>\<close>, with and without links.\<close>

theorem anchor_rendering_witness:
  "proceeds (plain_extractor no_options) body_position anchor_example
   \<and> text_isPresent (plain_extractor no_options) anchor_example = Inr True
   \<and> querySelectorAll_BREAK_TAGS anchor_example = []
   \<and> process (plain_extractor no_options) body_position anchor_example initial_state
       = Inr (initial_state\<lparr>document := \<lparr>content = [],
                segments = [Span ''['', Span ''t'', Span ''](http://e.com/)''], args = None\<rparr>\<rparr>)
   \<and> process (plain_extractor (no_options\<lparr>opt_links := Some False\<rparr>)) body_position anchor_example
         initial_state
       = Inr (initial_state\<lparr>document := \<lparr>content = [], segments = [Span ''t''], args = None\<rparr>\<rparr>)
   \<and> convert anchor_example no_options = Inr ''[t](http://e.com/)''
   \<and> convert anchor_example (no_options\<lparr>opt_links := Some False\<rparr>) = Inr ''t''"
proof -
  let ?E = "plain_extractor no_options"
  let ?F = "plain_extractor (no_options\<lparr>opt_links := Some False\<rparr>)"
  have a: "anchor_example =
      Element ''A'' [(''href'', ''http://e.com'')] (no_props\<lparr>href := ''http://e.com/''\<rparr>) [Text ''t'']"
    by (simp add: anchor_example_def)
  have p: "proceeds ?E body_position anchor_example" by code_simp
  have p': "proceeds ?F body_position anchor_example" by code_simp
  have l: "toLowerCase ''A'' = ''a''" by code_simp
  have t: "text_isPresent ?E anchor_example = Inr True" by code_simp
  have t': "text_isPresent ?F anchor_example = Inr True" by code_simp
  have q: "querySelectorAll_BREAK_TAGS anchor_example = []" by code_simp
  have 1: "process ?E body_position anchor_example initial_state
       = Inr (initial_state\<lparr>document := \<lparr>content = [],
                segments = [Span ''['', Span ''t'', Span ''](http://e.com/)''], args = None\<rparr>\<rparr>)"
    using anchor_rendering[OF p[unfolded a] l t[unfolded a] q[unfolded a], where s = initial_state]
    unfolding a by code_simp
  have 2: "process ?F body_position anchor_example initial_state
       = Inr (initial_state\<lparr>document := \<lparr>content = [], segments = [Span ''t''], args = None\<rparr>\<rparr>)"
    using anchor_rendering[OF p'[unfolded a] l t'[unfolded a] q[unfolded a], where s = initial_state]
    unfolding a by code_simp
  have 3: "convert anchor_example no_options = Inr ''[t](http://e.com/)''" by code_simp
  have 4: "convert anchor_example (no_options\<lparr>opt_links := Some False\<rparr>) = Inr ''t''" by code_simp
  from p t q 1 2 3 4 show ?thesis by blast
qed

text \<open>
  The string that the specification gives for this anchor, \<open>[t](http://e.com)\<close>, is
  the attribute value between the brackets; the source prints the property, and the
  string is not the output.
\<close>

theorem anchor_rendering_counterexample:
  "convert anchor_example no_options \<noteq> Inr ''[t](http://e.com)''"
  by code_simp

text \<open>
  Claim C9. Transforming an empty sequence of nodes returns the empty string, whatever
  the options.
\<close>

theorem empty_input: "deba m (Array []) u = Inr []"
  by (simp add: deba_def new_Extractor_def extract_def trim_def getContent_def initial_state_def
      new_Document_def start_def)

text \<open>
  Claim C10. The newline that follows a single line break is pushed as a bare string,
  not as a span. The Stringifier renders a segment list that is not empty as \<open>render\<close>
  says, where a bare string goes out as it is, at any place of the list. Presence looks
  at the spans only, so a block whose segments are all bare strings is not present:
  \<open>finish\<close> leaves the output as it is and \<open>break\<close> throws the segments away. A line
  break alone gives the empty output, and so does a line break followed by a comment.
\<close>

theorem bare_newline_discarded:
  "(proceeds E pos node \<and> toLowerCase (nodeName node) \<noteq> ''br'' \<and> justAppendedBr s \<longrightarrow>
      process E pos node s =
        process E pos node (document_push (Str [newline]) (s\<lparr>justAppendedBr := False\<rparr>)))
   \<and> (xs \<noteq> [] \<longrightarrow> stringify xs = Inr (render xs))
   \<and> render (before_it @ Str t # after_it) = render before_it @ t @ render after_it
   \<and> Document_isPresent d = Document_isPresent (d\<lparr>segments := filter is_Span (segments d)\<rparr>)
   \<and> ((\<forall>seg\<in>set (segments d). \<not> is_Span seg) \<longrightarrow>
        \<not> Document_isPresent d \<and> finish inBq d = Inr d
        \<and> break inBq blockType d = Inr (start (Some blockType) d))
   \<and> convert br no_options = Inr []
   \<and> convert (element ''DIV'' [br, Comment ''c'']) no_options = Inr []"
proof (intro conjI impI)
  assume "proceeds E pos node \<and> toLowerCase (nodeName node) \<noteq> ''br'' \<and> justAppendedBr s"
  then show "process E pos node s =
        process E pos node (document_push (Str [newline]) (s\<lparr>justAppendedBr := False\<rparr>))"
    by (simp add: process_deferred_newline)
next
  assume "xs \<noteq> []"
  then show "stringify xs = Inr (render xs)" by (rule stringify_render)
next
  show "render (before_it @ Str t # after_it) = render before_it @ t @ render after_it"
    by (rule render_Str_split)
next
  show "Document_isPresent d = Document_isPresent (d\<lparr>segments := filter is_Span (segments d)\<rparr>)"
    by (simp add: Document_isPresent_def present_loop_filter)
next
  assume a: "\<forall>seg\<in>set (segments d). \<not> is_Span seg"
  then show n: "\<not> Document_isPresent d"
    by (simp add: Document_isPresent_def present_loop_bare)
  then show f: "finish inBq d = Inr d" by (rule finish_absent)
  then show "break inBq blockType d = Inr (start (Some blockType) d)"
    by (simp add: break_def)
next
  show "convert br no_options = Inr []" by code_simp
next
  show "convert (element ''DIV'' [br, Comment ''c'']) no_options = Inr []" by code_simp
qed

text \<open>
  A comment after a single line break, a newline between two spans, and a paragraph
  that holds the bare newline only.
\<close>

theorem bare_newline_discarded_witness:
  "proceeds (plain_extractor no_options) body_position (Comment ''c'')
   \<and> process (plain_extractor no_options) body_position (Comment ''c'')
        (initial_state\<lparr>justAppendedBr := True\<rparr>)
      = Inr (initial_state\<lparr>document := \<lparr>content = [], segments = [Str [newline]], args = None\<rparr>\<rparr>)
   \<and> stringify [Span ''a  '', Str [newline], Span ''  b''] = Inr ''a\<newline>b''
   \<and> finish False \<lparr>content = ''x'', segments = [Str [newline]], args = Some Paragraph\<rparr>
      = Inr \<lparr>content = ''x'', segments = [Str [newline]], args = Some Paragraph\<rparr>"
proof -
  let ?E = "plain_extractor no_options"
  let ?d = "\<lparr>content = ''x'', segments = [Str [newline]], args = Some Paragraph\<rparr>"
  note th = bare_newline_discarded[of ?E body_position "Comment ''c''"
      "initial_state\<lparr>justAppendedBr := True\<rparr>" "[Span ''a  '', Str [newline], Span ''  b'']"
      "[]" "[newline]" "[]" ?d False Paragraph]
  have p: "proceeds ?E body_position (Comment ''c'')" by code_simp
  have 1: "process ?E body_position (Comment ''c'') (initial_state\<lparr>justAppendedBr := True\<rparr>)
      = Inr (initial_state\<lparr>document := \<lparr>content = [], segments = [Str [newline]], args = None\<rparr>\<rparr>)"
    using th by code_simp
  have 2: "stringify [Span ''a  '', Str [newline], Span ''  b''] = Inr ''a\<newline>b''"
    by code_simp
  have 3: "finish False ?d = Inr ?d"
    using th by simp
  from p 1 2 3 show ?thesis by blast
qed

end
